theory Spec2Isabelle
  imports Complex_Main "HOL-Library.Word"
begin

section \<open>Python values, exceptions and strings\<close>

text \<open>
  The two scripts are Python 2 (\<^verbatim>\<open>print\<close> statements). A Python 2 \<^verbatim>\<open>str\<close> is a byte
  string, modelled as \<^typ>\<open>string\<close> (a list of 8-bit characters). An exception is a value
  of \<open>error\<close>; a call that may raise returns \<open>error + 'a\<close>, \<open>Inl\<close> being the raise.
  Python floats are idealised as exact rationals. The last constructor,
  \<open>ConfigurationError\<close>, is the error kind the specification names for a class without
  occurrences; the source defines no such class and no function below returns it.
\<close>

datatype error =
    IndexError
  | KeyError
  | ZeroDivisionError
  | IOError
  | UnicodeDecodeError
  | ValueError
  | InvalidArgumentError
  | ConfigurationError

text \<open>Sequencing of calls that may raise: the first exception ends the computation.\<close>

definition bindE :: "error + 'a \<Rightarrow> ('a \<Rightarrow> error + 'b) \<Rightarrow> error + 'b" where
  "bindE m f = (case m of Inl e \<Rightarrow> Inl e | Inr x \<Rightarrow> f x)"

text \<open>A list comprehension whose element expression may raise.\<close>

fun mapE :: "('a \<Rightarrow> error + 'b) \<Rightarrow> 'a list \<Rightarrow> error + 'b list" where
  "mapE f [] = Inr []"
| "mapE f (x # xs) =
     (case f x of
        Inl e \<Rightarrow> Inl e
      | Inr y \<Rightarrow> (case mapE f xs of Inl e \<Rightarrow> Inl e | Inr ys \<Rightarrow> Inr (y # ys)))"

text \<open>\<^verbatim>\<open>s.split(sep)\<close> for a one-character separator: the pieces between the separators,
  scanning left to right; \<open>cur\<close> holds the piece being read, reversed.\<close>

fun split_from :: "char \<Rightarrow> string \<Rightarrow> string \<Rightarrow> string list" where
  "split_from sep cur [] = [rev cur]"
| "split_from sep cur (c # cs) =
     (if c = sep then rev cur # split_from sep [] cs else split_from sep (c # cur) cs)"

definition split :: "string \<Rightarrow> char \<Rightarrow> string list" where
  "split s sep = split_from sep [] s"

text \<open>\<^verbatim>\<open>str.lower()\<close> of Python 2 in the C locale: the bytes \<open>A\<close> to \<open>Z\<close> move to
  \<open>a\<close> to \<open>z\<close>, every other byte stays.\<close>

definition lower_char :: "char \<Rightarrow> char" where
  "lower_char c =
     (let n = (of_char c :: nat) in if 65 \<le> n \<and> n \<le> 90 then char_of (n + 32) else c)"

definition lower :: "string \<Rightarrow> string" where
  "lower s = map lower_char s"

text \<open>\<^verbatim>\<open>xs[i]\<close> for a non-negative index: \<^verbatim>\<open>IndexError\<close> out of range.\<close>

definition index :: "'a list \<Rightarrow> nat \<Rightarrow> error + 'a" where
  "index xs i = (if i < length xs then Inr (xs ! i) else Inl IndexError)"

text \<open>True division of \<^verbatim>\<open>from __future__ import division\<close>: dividing by zero raises.\<close>

definition truediv :: "rat \<Rightarrow> rat \<Rightarrow> error + rat" where
  "truediv a b = (if b = 0 then Inl ZeroDivisionError else Inr (a / b))"

section \<open>The label resolver (prepare\_tfrecords.py, lines 55--65 and 86--96)\<close>

text \<open>
  \<^verbatim>\<open>file_name = img.split('/')[-1].split('_')\<close>. \<^verbatim>\<open>split\<close> never returns an empty list, so
  \<^verbatim>\<open>[-1]\<close> is the last piece.
\<close>

definition file_name :: "string \<Rightarrow> string list" where
  "file_name img = split (last (split img (CHR ''/''))) (CHR ''_'')"

text \<open>\<^verbatim>\<open>class_name = file_name[0].lower() + '_' + file_name[1]\<close>: only the first token is
  lower-cased, and \<^verbatim>\<open>file_name[1]\<close> raises when the name has no underscore.\<close>

definition class_name :: "string \<Rightarrow> error + string" where
  "class_name img =
     bindE (index (file_name img) 0) (\<lambda>t0.
     bindE (index (file_name img) 1) (\<lambda>t1.
     Inr (lower t0 @ ''_'' @ t1)))"

text \<open>The \<^verbatim>\<open>if/elif/else\<close> chain, the same in both functions.\<close>

definition label_of_class :: "string \<Rightarrow> nat" where
  "label_of_class k =
     (if k = ''gleason_5'' then 3
      else if k = ''gleason_4'' then 2
      else if k = ''gleason_3'' then 1
      else 0)"

definition resolve_label :: "string \<Rightarrow> error + nat" where
  "resolve_label img = bindE (class_name img) (\<lambda>k. Inr (label_of_class k))"


section \<open>Class weights (prepare\_tfrecords.py, \<^verbatim>\<open>calculate_class_ratios\<close>)\<close>

text \<open>The dictionary \<^verbatim>\<open>targe_label_dic\<close> and \<^verbatim>\<open>d[k] += 1\<close>.\<close>

definition targe_label_dic0 :: "nat \<rightharpoonup> nat" where
  "targe_label_dic0 = [0 \<mapsto> 0, 1 \<mapsto> 0, 2 \<mapsto> 0, 3 \<mapsto> 0]"

definition getitem :: "('k \<rightharpoonup> 'v) \<Rightarrow> 'k \<Rightarrow> error + 'v" where
  "getitem d k = (case d k of None \<Rightarrow> Inl KeyError | Some v \<Rightarrow> Inr v)"

definition increment :: "(nat \<rightharpoonup> nat) \<Rightarrow> nat \<Rightarrow> error + (nat \<rightharpoonup> nat)" where
  "increment d k = bindE (getitem d k) (\<lambda>v. Inr (d(k \<mapsto> v + 1)))"

text \<open>The loop over the globbed files (lines 53--65): the branch taken adds one to the
  entry of the file's label.\<close>

fun count_labels :: "(nat \<rightharpoonup> nat) \<Rightarrow> string list \<Rightarrow> error + (nat \<rightharpoonup> nat)" where
  "count_labels d [] = Inr d"
| "count_labels d (img # files) =
     bindE (resolve_label img) (\<lambda>l.
     bindE (increment d l) (\<lambda>d'.
     count_labels d' files))"

text \<open>Lines 67--72 on the tallied dictionary. The list printed as class ratios is computed
  after the weights and thrown away; the returned list is what \<^verbatim>\<open>np.save\<close> receives.\<close>

definition class_weights_of :: "(nat \<rightharpoonup> nat) \<Rightarrow> error + rat list" where
  "class_weights_of d =
     bindE (mapE (getitem d) [0 ..< 4]) (\<lambda>values.
     bindE (mapE (\<lambda>v. truediv (of_nat (sum_list values)) (of_nat v)) values) (\<lambda>f_i.
     bindE (mapE (\<lambda>f. truediv f (sum_list f_i)) f_i) (\<lambda>class_weights.
     bindE (mapE (\<lambda>v. truediv (of_nat v) (of_nat (sum_list values))) values) (\<lambda>ratios.
     Inr class_weights))))"

text \<open>\<open>files\<close> is the result of the \<^verbatim>\<open>glob\<close> call, taken as the input.\<close>

definition calculate_class_ratios :: "string list \<Rightarrow> error + rat list" where
  "calculate_class_ratios files =
     bindE (count_labels targe_label_dic0 files) class_weights_of"

text \<open>The inverse-frequency term of class \<open>i\<close> as the specification words it: the total
  number of labelled files over the number of files of class \<open>i\<close>.\<close>

definition inverse_frequency :: "nat list \<Rightarrow> nat \<Rightarrow> rat" where
  "inverse_frequency labels i =
     of_nat (count_list labels 0 + count_list labels 1 + count_list labels 2 + count_list labels 3)
       / of_nat (count_list labels i)"

section \<open>Files and the sidecar name (tfrecord.py)\<close>

text \<open>
  \<^verbatim>\<open>p.rfind(c)\<close>: the last index of \<open>c\<close>, or \<open>-1\<close>. The scan keeps the index \<open>i\<close> of the
  next byte and the last match so far.
\<close>

fun rfind_from :: "char \<Rightarrow> int \<Rightarrow> int \<Rightarrow> string \<Rightarrow> int" where
  "rfind_from c i found [] = found"
| "rfind_from c i found (x # xs) = rfind_from c (i + 1) (if x = c then i else found) xs"

definition rfind :: "string \<Rightarrow> char \<Rightarrow> int" where
  "rfind p c = rfind_from c 0 (-1) p"

text \<open>
  \<^verbatim>\<open>os.path.splitext\<close> (the standard library's \<^verbatim>\<open>genericpath._splitext\<close> with separator
  \<open>/\<close>): the extension starts at the last dot of the last path component, unless that
  component has only dots before it. The loop skips the leading dots.
\<close>

function skip_leading_dots :: "string \<Rightarrow> nat \<Rightarrow> nat \<Rightarrow> string \<times> string" where
  "skip_leading_dots p filenameIndex dotIndex =
     (if filenameIndex < dotIndex then
        if p ! filenameIndex \<noteq> CHR ''.'' then (take dotIndex p, drop dotIndex p)
        else skip_leading_dots p (filenameIndex + 1) dotIndex
      else (p, []))"
  by pat_completeness auto
termination
  by (relation "measure (\<lambda>(p, filenameIndex, dotIndex). dotIndex - filenameIndex)") auto

declare skip_leading_dots.simps [simp del]

definition splitext :: "string \<Rightarrow> string \<times> string" where
  "splitext p =
     (let sepIndex = rfind p (CHR ''/'');
          dotIndex = rfind p (CHR ''.'')
      in if dotIndex > sepIndex then skip_leading_dots p (nat (sepIndex + 1)) (nat dotIndex)
         else (p, []))"

definition tfrecord2metafilename :: "string \<Rightarrow> string" where
  "tfrecord2metafilename tfrecord_filename =
     (let (base, ext) = splitext tfrecord_filename in base @ ''_meta.npz'')"

section \<open>The record codec (tfrecord.py, \<^verbatim>\<open>encode\<close> and lines 223--238)\<close>

text \<open>
  What \<^verbatim>\<open>np.array(Image.open(path))\<close> gives for an 8-bit image: a two-dimensional array
  (one channel) or a three-dimensional one, rows of pixels of channel values.
\<close>

datatype ndarray =
    Array2 "8 word list list"
  | Array3 "8 word list list list"

text \<open>A \<^verbatim>\<open>tf.train.Feature\<close> and a \<^verbatim>\<open>tf.train.Example\<close>: the named features, in the
  order of the dictionary literal. The protocol-buffer wire format is the library's and
  loses nothing, so a serialized record is the example itself.\<close>

datatype feature =
    BytesList "string list"
  | Int64List "64 word list"
  | FloatList "rat list"

type_synonym example = "(string \<times> feature) list"

text \<open>The three arrays \<^verbatim>\<open>np.savez\<close> stores, under the keywords \<^verbatim>\<open>file_pointers\<close>,
  \<^verbatim>\<open>labels\<close> and \<^verbatim>\<open>output_pointer\<close>.\<close>

record npz =
  npz_file_pointers :: "string list"
  npz_labels :: "int list"
  npz_output_pointer :: string

datatype disk_file =
    ImageFile ndarray
  | TFRecordFile "example list"
  | NpzFile npz

definition Image_open :: "(string \<rightharpoonup> disk_file) \<Rightarrow> string \<Rightarrow> error + ndarray" where
  "Image_open fs img_path =
     (case fs img_path of Some (ImageFile a) \<Rightarrow> Inr a | _ \<Rightarrow> Inl IOError)"

text \<open>\<^verbatim>\<open>img[:,:,:3]\<close>: three indices on a two-dimensional array raise; on a
  three-dimensional one every pixel keeps its first three channels (fewer if it has fewer).\<close>

definition first_three_channels :: "ndarray \<Rightarrow> error + 8 word list list list" where
  "first_three_channels a =
     (case a of Array2 _ \<Rightarrow> Inl IndexError | Array3 img \<Rightarrow> Inr (map (map (take 3)) img))"

text \<open>A float32 holds every integer from 0 to 255 exactly; the cast back truncates
  towards zero and wraps.\<close>

definition astype_float32 :: "8 word \<Rightarrow> rat" where
  "astype_float32 b = of_nat (unat b)"

definition astype_uint8 :: "rat \<Rightarrow> 8 word" where
  "astype_uint8 x = word_of_int (if x < 0 then - \<lfloor>- x\<rfloor> else \<lfloor>x\<rfloor>)"

text \<open>\<^verbatim>\<open>tostring()\<close>: the bytes in row-major order.\<close>

definition tostring :: "8 word list list list \<Rightarrow> string" where
  "tostring img = map (\<lambda>b. char_of (unat b)) (concat (concat img))"

text \<open>\<^verbatim>\<open>img_path.encode('utf-8')\<close> on a Python 2 \<^verbatim>\<open>str\<close> decodes it as ASCII first, which
  raises on a byte above 127, and gives the same bytes back otherwise.\<close>

definition encode_utf8 :: "string \<Rightarrow> error + string" where
  "encode_utf8 s =
     (if list_all (\<lambda>c. (of_char c :: nat) < 128) s then Inr s else Inl UnicodeDecodeError)"

definition bytes_feature :: "string \<Rightarrow> feature" where
  "bytes_feature v = BytesList [v]"

text \<open>An \<^verbatim>\<open>Int64List\<close> rejects a value outside the signed 64-bit range.\<close>

definition int64_feature :: "int \<Rightarrow> error + feature" where
  "int64_feature v =
     (if - (2 ^ 63) \<le> v \<and> v < 2 ^ 63 then Inr (Int64List [word_of_int v]) else Inl ValueError)"

definition encode :: "(string \<rightharpoonup> disk_file) \<Rightarrow> string \<Rightarrow> int \<Rightarrow> error + example" where
  "encode fs img_path target_label =
     bindE (Image_open fs img_path) (\<lambda>a.
     bindE (first_three_channels a) (\<lambda>sliced.
       let img = map (map (map astype_float32)) sliced;
           img_raw = tostring (map (map (map astype_uint8)) img)
       in
     bindE (encode_utf8 img_path) (\<lambda>path_raw.
     bindE (int64_feature target_label) (\<lambda>label_feature.
     Inr [(''image_raw'', bytes_feature img_raw),
          (''file_path'', bytes_feature path_raw),
          (''target_label'', label_feature)]))))"

text \<open>\<^verbatim>\<open>tf.parse_single_example\<close> with a \<^verbatim>\<open>FixedLenFeature([], dtype)\<close>: the feature must
  be there, of that kind, with exactly one value.\<close>

definition fixed_len_string :: "example \<Rightarrow> string \<Rightarrow> error + string" where
  "fixed_len_string ex key =
     (case map_of ex key of Some (BytesList [v]) \<Rightarrow> Inr v | _ \<Rightarrow> Inl InvalidArgumentError)"

definition fixed_len_int64 :: "example \<Rightarrow> string \<Rightarrow> error + 64 word" where
  "fixed_len_int64 ex key =
     (case map_of ex key of Some (Int64List [v]) \<Rightarrow> Inr v | _ \<Rightarrow> Inl InvalidArgumentError)"

definition decode_raw :: "string \<Rightarrow> 8 word list" where
  "decode_raw s = map (\<lambda>c. of_char c) s"

text \<open>\<open>chunk k n xs\<close>: the first \<open>k\<close> consecutive pieces of length \<open>n\<close>.\<close>

primrec chunk :: "nat \<Rightarrow> nat \<Rightarrow> 'a list \<Rightarrow> 'a list list" where
  "chunk 0 n xs = []"
| "chunk (Suc k) n xs = take n xs # chunk k n (drop n xs)"

text \<open>\<^verbatim>\<open>tf.reshape\<close> of a flat tensor to \<open>[h, w, c]\<close> and to \<open>[b, h, w, c]\<close>: the number
  of elements must be the product of the dimensions.\<close>

definition reshape3 :: "'a list \<Rightarrow> nat \<times> nat \<times> nat \<Rightarrow> error + 'a list list list" where
  "reshape3 xs dims =
     (case dims of (h, w, c) \<Rightarrow>
        if length xs = h * w * c then Inr (map (chunk w c) (chunk h (w * c) xs))
        else Inl InvalidArgumentError)"

definition reshape4 ::
  "'a list \<Rightarrow> nat \<Rightarrow> nat \<times> nat \<times> nat \<Rightarrow> error + 'a list list list list" where
  "reshape4 xs b dims =
     (case dims of (h, w, c) \<Rightarrow>
        if length xs = b * h * w * c
        then Inr (map (\<lambda>e. map (chunk w c) (chunk h (w * c) e)) (chunk b (h * w * c) xs))
        else Inl InvalidArgumentError)"

type_synonym image = "rat list list list"

text \<open>Lines 223--238: parse, \<^verbatim>\<open>decode_raw\<close>, the casts and the reshape to \<open>img_dims\<close>. The
  label is cast from int64 to int32, which keeps the low 32 bits.\<close>

definition decode_example ::
  "nat \<times> nat \<times> nat \<Rightarrow> example \<Rightarrow> error + (image \<times> 32 word \<times> string)" where
  "decode_example img_dims serialized_example =
     bindE (fixed_len_string serialized_example ''image_raw'') (\<lambda>image_raw.
     bindE (fixed_len_string serialized_example ''file_path'') (\<lambda>file_path.
     bindE (fixed_len_int64 serialized_example ''target_label'') (\<lambda>label.
       let image = decode_raw image_raw;
           target_label = (ucast label :: 32 word)
       in
     bindE (reshape3 image img_dims) (\<lambda>image.
     Inr (map (map (map astype_float32)) image, target_label, file_path)))))"

section \<open>The bulk encoder (tfrecord.py, \<^verbatim>\<open>create_tf_record\<close>)\<close>

text \<open>
  The state is the file system and the log of the output operations in the order they
  happen. Output locations are taken to be writable. The 32 worker processes run \<open>encode\<close>
  on the items; each call reads the file system only, so the list of futures is the list of
  the calls' outcomes, in submission order.
\<close>

datatype event =
    Opened string
  | Wrote string example
  | Saved string npz

record world =
  disk :: "string \<rightharpoonup> disk_file"
  events :: "event list"

text \<open>\<^verbatim>\<open>tf.python_io.TFRecordWriter(name)\<close> creates the file empty.\<close>

definition TFRecordWriter :: "string \<Rightarrow> world \<Rightarrow> world" where
  "TFRecordWriter name w =
     w\<lparr>disk := (disk w)(name \<mapsto> TFRecordFile []), events := events w @ [Opened name]\<rparr>"

definition records_of :: "disk_file option \<Rightarrow> example list" where
  "records_of f = (case f of Some (TFRecordFile rs) \<Rightarrow> rs | _ \<Rightarrow> [])"

definition writer_write :: "string \<Rightarrow> example \<Rightarrow> world \<Rightarrow> world" where
  "writer_write name ex w =
     w\<lparr>disk := (disk w)(name \<mapsto> TFRecordFile (records_of (disk w name) @ [ex])),
       events := events w @ [Wrote name ex]\<rparr>"

definition savez :: "string \<Rightarrow> npz \<Rightarrow> world \<Rightarrow> world" where
  "savez name contents w =
     w\<lparr>disk := (disk w)(name \<mapsto> NpzFile contents), events := events w @ [Saved name contents]\<rparr>"

text \<open>Lines 188--193: the futures are read in submission order; a result is written, an
  exception is caught and the item left out.\<close>

fun write_examples :: "string \<Rightarrow> (error + example) list \<Rightarrow> world \<Rightarrow> world" where
  "write_examples name [] w = w"
| "write_examples name (future # futures) w =
     (case future of
        Inr ex \<Rightarrow> write_examples name futures (writer_write name ex w)
      | Inl e \<Rightarrow> write_examples name futures w)"

text \<open>Line 175: one future per pair of the zipped inputs.\<close>

definition submit_all ::
  "(string \<rightharpoonup> disk_file) \<Rightarrow> string list \<Rightarrow> int list \<Rightarrow> (error + example) list" where
  "submit_all fs file_pointers target_labels =
     map (\<lambda>(f, t_l). encode fs f t_l) (zip file_pointers target_labels)"

definition create_tf_record :: "string \<Rightarrow> string list \<Rightarrow> int list \<Rightarrow> world \<Rightarrow> world" where
  "create_tf_record tfrecords_filename file_pointers target_labels w =
     (let w1 = TFRecordWriter tfrecords_filename w;
          futures = submit_all (disk w1) file_pointers target_labels;
          w2 = write_examples tfrecords_filename futures w1;
          meta = tfrecord2metafilename tfrecords_filename
      in savez meta
           \<lparr>npz_file_pointers = file_pointers, npz_labels = target_labels,
            npz_output_pointer = tfrecords_filename\<rparr> w2)"

text \<open>The examples of the futures that returned, in order, and the number of futures that
  raised.\<close>

fun successes :: "(error + 'a) list \<Rightarrow> 'a list" where
  "successes [] = []"
| "successes (Inr x # rs) = x # successes rs"
| "successes (Inl e # rs) = successes rs"

definition failures :: "(error + 'a) list \<Rightarrow> nat" where
  "failures rs = length (filter isl rs)"

text \<open>Stripping the extension of a file name (no slash in it) as the documentation of
  \<^verbatim>\<open>splitext\<close> words it: the extension is what follows the last dot, the dot included,
  and a name with no dot, or with only dots before its last dot, has none. Used only to
  compare with \<open>splitext\<close>.\<close>

definition spec_strip_extension :: "string \<Rightarrow> string" where
  "spec_strip_extension name =
     (let stem = rev (tl (dropWhile (\<lambda>c. c \<noteq> CHR ''.'') (rev name)))
      in if CHR ''.'' \<in> set name \<and> list_ex (\<lambda>c. c \<noteq> CHR ''.'') stem then stem else name)"

text \<open>The sidecar writes among a list of events.\<close>

fun saves :: "event list \<Rightarrow> (string \<times> npz) list" where
  "saves [] = []"
| "saves (Saved name contents # es) = (name, contents) # saves es"
| "saves (e # es) = saves es"

text \<open>An array of \<open>h\<close> rows of \<open>w\<close> pixels of \<open>c\<close> channel values.\<close>

definition has_shape :: "nat \<times> nat \<times> nat \<Rightarrow> 'a list list list \<Rightarrow> bool" where
  "has_shape dims img =
     (case dims of (h, w, c) \<Rightarrow>
        length img = h
        \<and> list_all (\<lambda>row. length row = w \<and> list_all (\<lambda>px. length px = c) row) img)"

section \<open>The decode and augmentation pipeline (tfrecord.py, \<^verbatim>\<open>read_and_decode\<close>)\<close>

text \<open>
  The function builds a TensorFlow graph; one run of the graph gives one batch. The model
  is the function of one run: its inputs are the serialized examples the queue delivers
  for the batch (which ones, and in which order, is the queue's and the \<^verbatim>\<open>shuffle\<close>
  flag's business), the random numbers each random operation draws in the run, and the
  library operations whose arithmetic is floating point (rotation, dense warp, grayscale),
  taken as parameters. Tensors of floats are lists of rationals.
\<close>

definition GLEASON_MEAN_G :: rat where
  "GLEASON_MEAN_G = 15385 / 100"

definition GLEASON_MEAN_STD_G :: rat where
  "GLEASON_MEAN_STD_G = 2538 / 100"

text \<open>Lines 37--44, on a batch of images.\<close>

definition normalize :: "image list \<Rightarrow> image list" where
  "normalize im =
     map (map (map (map (\<lambda>x. (x - GLEASON_MEAN_G) / GLEASON_MEAN_STD_G)))) im"

text \<open>The dictionary of toggles, with its six keys present.\<close>

record augmentations_dic =
  rand_crop :: bool
  rand_flip_left_right :: bool
  rand_flip_top_bottom :: bool
  rand_rotate :: bool
  warp :: bool
  grayscale :: bool

record tf_ops =
  tf_rotate :: "image \<Rightarrow> nat \<Rightarrow> image"
  tf_dense_image_warp :: "image \<Rightarrow> rat list list list \<Rightarrow> image"
  tf_rgb_to_grayscale :: "image \<Rightarrow> image"

text \<open>What one example draws: the three raw integers of \<^verbatim>\<open>random_crop\<close>, the two coins of
  the flips, and the sample among the 360 angles (in degrees).\<close>

record draws =
  crop_draw :: "nat \<times> nat \<times> nat"
  flip_left_right :: bool
  flip_up_down :: bool
  angle_sample :: nat

text \<open>\<^verbatim>\<open>tf.random_crop(value, size)\<close>: the value must be at least as large as the size
  in every dimension; the offset is the raw draw modulo \<open>shape - size + 1\<close>.\<close>

definition slice3 :: "image \<Rightarrow> nat \<times> nat \<times> nat \<Rightarrow> nat \<times> nat \<times> nat \<Rightarrow> image" where
  "slice3 im begin size3 =
     (case (begin, size3) of ((b0, b1, b2), (s0, s1, s2)) \<Rightarrow>
        map (\<lambda>row. map (\<lambda>px. take s2 (drop b2 px)) (take s1 (drop b1 row)))
          (take s0 (drop b0 im)))"

definition random_crop ::
  "image \<Rightarrow> nat \<times> nat \<times> nat \<Rightarrow> nat \<times> nat \<times> nat \<Rightarrow> nat \<times> nat \<times> nat \<Rightarrow> error + image" where
  "random_crop im shape size3 raw =
     (case (shape, size3, raw) of ((h, w, c), (s0, s1, s2), (r0, r1, r2)) \<Rightarrow>
        if s0 \<le> h \<and> s1 \<le> w \<and> s2 \<le> c
        then Inr (slice3 im (r0 mod (h - s0 + 1), r1 mod (w - s1 + 1), r2 mod (c - s2 + 1))
                    (s0, s1, s2))
        else Inl InvalidArgumentError)"

text \<open>\<^verbatim>\<open>tf.image.resize_image_with_crop_or_pad\<close> along one axis: with
  \<open>diff = target - length\<close>, crop from offset \<open>max (-diff // 2) 0\<close> to the smaller of the two
  lengths, then pad with \<open>max (diff // 2) 0\<close> zeros before and the rest after.\<close>

definition crop_or_pad_axis :: "'a \<Rightarrow> nat \<Rightarrow> 'a list \<Rightarrow> 'a list" where
  "crop_or_pad_axis zero target xs =
     (let diff = int target - int (length xs);
          offset_crop = nat (max ((- diff) div 2) 0);
          offset_pad = nat (max (diff div 2) 0);
          cropped = take (min target (length xs)) (drop offset_crop xs)
      in replicate offset_pad zero @ cropped
           @ replicate (target - offset_pad - length cropped) zero)"

definition resize_image_with_crop_or_pad ::
  "image \<Rightarrow> nat \<times> nat \<times> nat \<Rightarrow> nat \<Rightarrow> nat \<Rightarrow> image" where
  "resize_image_with_crop_or_pad im shape target_height target_width =
     (case shape of (h, w, c) \<Rightarrow>
        crop_or_pad_axis (replicate target_width (replicate c 0)) target_height
          (map (crop_or_pad_axis (replicate c 0) target_width) im))"

definition random_flip_left_right :: "image \<Rightarrow> bool \<Rightarrow> image" where
  "random_flip_left_right im coin = (if coin then map rev im else im)"

definition random_flip_up_down :: "image \<Rightarrow> bool \<Rightarrow> image" where
  "random_flip_up_down im coin = (if coin then rev im else im)"

text \<open>Lines 240--255 on one decoded image.\<close>

definition augment_example ::
  "tf_ops \<Rightarrow> augmentations_dic \<Rightarrow> nat \<times> nat \<times> nat \<Rightarrow> nat \<times> nat \<times> nat \<Rightarrow> draws \<Rightarrow> image
     \<Rightarrow> error + image" where
  "augment_example ops dic img_dims model_dims d im =
     bindE (if rand_crop dic then random_crop im img_dims model_dims (crop_draw d)
            else Inr (resize_image_with_crop_or_pad im img_dims
                        (fst model_dims) (fst (snd model_dims)))) (\<lambda>im.
       let im = (if rand_flip_left_right dic
                    then random_flip_left_right im (flip_left_right d) else im);
           im = (if rand_flip_top_bottom dic
                    then random_flip_up_down im (flip_up_down d) else im);
           im = (if rand_rotate dic then tf_rotate ops im (angle_sample d) else im)
       in Inr im)"

text \<open>Lines 223--255 on one serialized example.\<close>

definition example_pipeline ::
  "tf_ops \<Rightarrow> augmentations_dic \<Rightarrow> nat \<times> nat \<times> nat \<Rightarrow> nat \<times> nat \<times> nat \<Rightarrow> draws \<times> example
     \<Rightarrow> error + (image \<times> 32 word \<times> string)" where
  "example_pipeline ops dic img_dims model_dims input =
     (case input of (d, serialized_example) \<Rightarrow>
        bindE (decode_example img_dims serialized_example) (\<lambda>(im, target_label, file_path).
        bindE (augment_example ops dic img_dims model_dims d im) (\<lambda>im.
        Inr (im, target_label, file_path))))"

text \<open>
  Lines 293--301. \<open>X_convolved\<close> and \<open>Y_convolved\<close> are the two blurred and scaled noise
  fields of lines 277--291, each computed once in a run. \<^verbatim>\<open>tf.stack\<close> on the last axis
  pairs them point by point, \<^verbatim>\<open>tf.tile\<close> repeats the flattened pairs \<open>size_of_batch\<close>
  times, and \<^verbatim>\<open>dense_image_warp\<close> warps image \<open>i\<close> of the batch by flow \<open>i\<close>.
\<close>

definition stack_last :: "rat list list \<Rightarrow> rat list list \<Rightarrow> rat list list list" where
  "stack_last X Y = map (\<lambda>(xr, yr). map (\<lambda>(x, y). [x, y]) (zip xr yr)) (zip X Y)"

definition tile :: "'a list \<Rightarrow> nat \<Rightarrow> 'a list" where
  "tile xs n = concat (replicate n xs)"

definition flatten4 :: "'a list list list list \<Rightarrow> 'a list" where
  "flatten4 img = concat (map (\<lambda>e. concat (concat e)) img)"

definition warp_batch ::
  "tf_ops \<Rightarrow> nat \<times> nat \<times> nat \<Rightarrow> nat \<Rightarrow> rat list list \<times> rat list list \<Rightarrow> image list
     \<Rightarrow> error + image list" where
  "warp_batch ops model_dims size_of_batch noise img =
     (case (model_dims, noise) of ((m0, m1, m2), (X_convolved, Y_convolved)) \<Rightarrow>
        let trans = concat (concat (stack_last X_convolved Y_convolved)) in
        bindE (reshape4 (tile trans size_of_batch) size_of_batch (m0, m1, 2)) (\<lambda>batch_trans.
        bindE (reshape4 (flatten4 img) size_of_batch (m0, m1, m2)) (\<lambda>img.
        Inr (map (\<lambda>(im, flow). tf_dense_image_warp ops im flow) (zip img batch_trans)))))"

text \<open>The whole run. The arguments \<^verbatim>\<open>num_of_threads\<close> and \<^verbatim>\<open>shuffle\<close> only decide which
  examples the queue delivers, which is the input \<open>filename_queue\<close> here.\<close>

definition read_and_decode ::
  "tf_ops \<Rightarrow> (draws \<times> example) list \<Rightarrow> nat \<times> nat \<times> nat \<Rightarrow> nat \<times> nat \<times> nat \<Rightarrow> nat
     \<Rightarrow> augmentations_dic \<Rightarrow> rat list list \<times> rat list list
     \<Rightarrow> error + (image list \<times> 32 word list \<times> string list)" where
  "read_and_decode ops filename_queue img_dims model_dims size_of_batch dic noise =
     bindE (mapE (example_pipeline ops dic img_dims model_dims) filename_queue) (\<lambda>examples.
       let img = map fst examples;
           t_l = map (\<lambda>e. fst (snd e)) examples;
           f_p = map (\<lambda>e. snd (snd e)) examples
       in
     bindE (if warp dic then warp_batch ops model_dims size_of_batch noise img
            else Inr img) (\<lambda>img.
       let img = (if grayscale dic then map (tf_rgb_to_grayscale ops) img else img)
       in Inr (img, t_l, f_p)))"

text \<open>All the values of a batch of images.\<close>

definition pixel_values :: "image list \<Rightarrow> rat set" where
  "pixel_values batch = set (flatten4 batch)"

text \<open>A matrix of \<open>h\<close> rows of \<open>w\<close> values.\<close>

definition has_shape2 :: "nat \<times> nat \<Rightarrow> 'a list list \<Rightarrow> bool" where
  "has_shape2 dims X =
     (case dims of (h, w) \<Rightarrow> length X = h \<and> list_all (\<lambda>row. length row = w) X)"

text \<open>All the values of one image.\<close>

definition image_values :: "image \<Rightarrow> rat set" where
  "image_values im = (\<Union>row\<in>set im. \<Union>px\<in>set row. set px)"

section \<open>Properties of the label resolver\<close>

lemma bindE_Inr [simp]: "bindE (Inr x) f = f x"
  by (simp add: bindE_def)

lemma bindE_Inl [simp]: "bindE (Inl e) f = Inl e"
  by (simp add: bindE_def)








lemma label_of_class_less: "label_of_class k < 4"
  by (simp add: label_of_class_def)

lemma resolve_label_less: "resolve_label img = Inr l \<Longrightarrow> l < 4"
  by (auto simp: resolve_label_def bindE_def label_of_class_less split: sum.splits)

lemma length_split_from: "length (split_from sep cur s) = Suc (count_list s sep)"
  by (induction s arbitrary: cur) auto

lemma length_split: "length (split s sep) = Suc (count_list s sep)"
  by (simp add: split_def length_split_from)

lemma count_list_0_iff: "count_list xs x = 0 \<longleftrightarrow> x \<notin> set xs"
  by (induction xs) auto

text \<open>The resolver returns a label exactly for the names with an underscore after the last
  slash; every other name raises \<^verbatim>\<open>IndexError\<close> at \<^verbatim>\<open>file_name[1]\<close>.\<close>

lemma resolve_label_defined_iff:
  "(\<exists>l. resolve_label img = Inr l) \<longleftrightarrow> CHR ''_'' \<in> set (last (split img (CHR ''/'')))"
proof -
  have "1 < length (file_name img) \<longleftrightarrow> CHR ''_'' \<in> set (last (split img (CHR ''/'')))"
    using count_list_0_iff [of "last (split img (CHR ''/''))" "CHR ''_''"]
    by (auto simp: file_name_def length_split)
  moreover have "0 < length (file_name img)"
    by (simp add: file_name_def length_split)
  ultimately show ?thesis
    by (auto simp: resolve_label_def class_name_def index_def)
qed

lemma resolve_label_no_underscore:
  "CHR ''_'' \<notin> set (last (split img (CHR ''/''))) \<Longrightarrow> resolve_label img = Inl IndexError"
proof -
  assume "CHR ''_'' \<notin> set (last (split img (CHR ''/'')))"
  then have "length (file_name img) = 1"
    by (simp add: file_name_def length_split count_list_0_iff)
  then show ?thesis
    by (simp add: resolve_label_def class_name_def index_def)
qed



text \<open>
  Claim C7. The resolver is not total: a file whose name has no underscore makes
  \<^verbatim>\<open>file_name[1]\<close> raise \<^verbatim>\<open>IndexError\<close>, where the claim promises the background label 0.
\<close>

theorem label_resolver_raises_without_underscore:
  "resolve_label ''/data/train/benign.png'' = Inl IndexError"
  by (simp add: resolve_label_def class_name_def index_def file_name_def split_def)

section \<open>Properties of the class weights\<close>

text \<open>The loop adds to each entry the number of files resolved to that label.\<close>

lemma count_labels_counts:
  assumes "mapE resolve_label files = Inr labels"
    and "\<forall>k<4. d k = Some (c k)"
  shows "\<exists>d'. count_labels d files = Inr d'
            \<and> (\<forall>k<4. d' k = Some (c k + count_list labels k))"
  using assms
proof (induction files arbitrary: d c labels)
  case Nil
  then show ?case by simp
next
  case (Cons img files)
  from Cons.prems(1) obtain l ls where l: "resolve_label img = Inr l"
    and ls: "mapE resolve_label files = Inr ls" and labels: "labels = l # ls"
    by (auto split: sum.splits)
  have l4: "l < 4" using l by (rule resolve_label_less)
  let ?d = "d(l \<mapsto> c l + 1)"
  let ?c = "\<lambda>k. if k = l then c l + 1 else c k"
  have inc: "increment d l = Inr ?d"
    using Cons.prems(2) l4 by (simp add: increment_def getitem_def)
  have "\<forall>k<4. ?d k = Some (?c k)" using Cons.prems(2) by simp
  from Cons.IH [OF ls this] obtain d' where
    d': "count_labels ?d files = Inr d'" "\<forall>k<4. d' k = Some (?c k + count_list ls k)"
    by blast
  have "count_labels d (img # files) = Inr d'" using l inc d'(1) by simp
  moreover have "\<forall>k<4. d' k = Some (c k + count_list labels k)"
    using d'(2) labels by auto
  ultimately show ?case by blast
qed

lemma count_labels_dic0:
  assumes "mapE resolve_label files = Inr labels"
  shows "\<exists>d'. count_labels targe_label_dic0 files = Inr d'
            \<and> (\<forall>k<4. d' k = Some (count_list labels k))"
proof -
  have "\<forall>k<4. targe_label_dic0 k = Some ((\<lambda>_. 0) k)"
    by (auto simp: targe_label_dic0_def less_Suc_eq eval_nat_numeral)
  from count_labels_counts [OF assms this] show ?thesis by simp
qed

lemma upt_4: "[0 ..< 4] = [0, 1, 2, Suc 2]"
  by (simp add: upt_rec)

lemma values_of_dic:
  assumes "\<forall>k<4. d k = Some (c k)"
  shows "mapE (getitem d) [0 ..< 4] = Inr [c 0, c 1, c 2, c 3]"
  using assms by (simp add: upt_4 getitem_def eval_nat_numeral)

lemma class_weights_of_zero:
  assumes "\<forall>k<4. d k = Some (c k)" and "\<exists>k<4. c k = 0"
  shows "class_weights_of d = Inl ZeroDivisionError"
proof -
  from assms(2) have "c 0 = 0 \<or> c 1 = 0 \<or> c 2 = 0 \<or> c 3 = 0"
    by (auto simp: less_Suc_eq eval_nat_numeral)
  then show ?thesis
    unfolding class_weights_of_def values_of_dic [OF assms(1)]
    by (auto simp: truediv_def)
qed

lemma class_weights_of_pos:
  fixes c :: "nat \<Rightarrow> nat"
  assumes "\<forall>k<4. d k = Some (c k)" and "\<forall>k<4. 0 < c k"
  defines "tot \<equiv> c 0 + c 1 + c 2 + c 3"
  defines "f \<equiv> \<lambda>k. (of_nat tot :: rat) / of_nat (c k)"
  defines "s \<equiv> f 0 + f 1 + f 2 + f 3"
  shows "class_weights_of d = Inr [f 0 / s, f 1 / s, f 2 / s, f 3 / s]"
proof -
  have pos: "0 < c 0" "0 < c 1" "0 < c 2" "0 < c 3" using assms(2) by simp_all
  then have tpos: "0 < tot" by (simp add: tot_def)
  have fpos: "0 < f 0" "0 < f 1" "0 < f 2" "0 < f 3" using pos tpos by (simp_all add: f_def)
  then have spos: "0 < s" by (simp add: s_def)
  have sl: "sum_list [c 0, c 1, c 2, c 3] = tot" by (simp add: tot_def)
  have tne: "(of_nat tot :: rat) \<noteq> 0" using tpos by simp
  have fi: "mapE (\<lambda>v. truediv (of_nat (sum_list [c 0, c 1, c 2, c 3])) (of_nat v))
              [c 0, c 1, c 2, c 3] = Inr [f 0, f 1, f 2, f 3]"
    unfolding sl using pos by (simp add: truediv_def f_def)
  have cw: "mapE (\<lambda>x. truediv x (sum_list [f 0, f 1, f 2, f 3])) [f 0, f 1, f 2, f 3]
      = Inr [f 0 / s, f 1 / s, f 2 / s, f 3 / s]"
    using spos by (simp add: truediv_def s_def add.assoc)
  have "\<exists>r. mapE (\<lambda>v. truediv (of_nat v) (of_nat (sum_list [c 0, c 1, c 2, c 3])))
              [c 0, c 1, c 2, c 3] = Inr r"
    unfolding sl using tne by (simp add: truediv_def)
  then obtain r where
    r: "mapE (\<lambda>v. truediv (of_nat v) (of_nat (sum_list [c 0, c 1, c 2, c 3])))
              [c 0, c 1, c 2, c 3] = Inr r" ..
  show ?thesis
    unfolding class_weights_of_def values_of_dic [OF assms(1)]
    by (simp only: fi cw r bindE_Inr)
qed

lemma inverse_frequency_pos:
  assumes "i \<in> set labels" and "i < 4"
  shows "0 < inverse_frequency labels i"
proof -
  have ci: "0 < count_list labels i"
    using assms(1) count_list_0_iff [of labels i] by auto
  from assms(2) have "i = 0 \<or> i = 1 \<or> i = 2 \<or> i = 3" by auto
  with ci have "0 < count_list labels 0 + count_list labels 1 + count_list labels 2
                     + count_list labels 3"
    by auto
  then have "(0::rat) < of_nat (count_list labels 0 + count_list labels 1
                     + count_list labels 2 + count_list labels 3)"
    by (simp only: of_nat_0_less_iff)
  moreover have "(0::rat) < of_nat (count_list labels i)"
    using ci by (simp only: of_nat_0_less_iff)
  ultimately show ?thesis
    unfolding inverse_frequency_def by (rule divide_pos_pos)
qed

lemma sum_list_normalised:
  fixes a b c d s :: rat
  assumes "s = a + b + c + d" and "0 < s"
  shows "sum_list [a / s, b / s, c / s, d / s] = 1"
proof -
  have "sum_list [a / s, b / s, c / s, d / s] = (a + b + c + d) / s"
    by (simp add: add_divide_distrib add.assoc)
  with assms show ?thesis by simp
qed

text \<open>
  Claim C3 (amended). When the files all resolve to a label and one of the four classes
  0, 1, 2, 3 has no file, computing the class weights raises Python's
  \<^verbatim>\<open>ZeroDivisionError\<close> at the aggregation step (the division \<^verbatim>\<open>sum(values)/v\<close> of
  line 68 by the zero count) and returns no weights, so no infinite or undefined weight
  is produced or saved.
\<close>

theorem class_weights_zero_count_raises:
  assumes "mapE resolve_label files = Inr labels" and "\<not> {0, 1, 2, 3} \<subseteq> set labels"
  shows "calculate_class_ratios files = Inl ZeroDivisionError"
proof -
  from assms(2) have missing: "\<exists>k<4. k \<notin> set labels"
    by (auto simp: eval_nat_numeral Ex_less_Suc)
  from count_labels_dic0 [OF assms(1)] obtain d' where
    d': "count_labels targe_label_dic0 files = Inr d'"
        "\<forall>k<4. d' k = Some (count_list labels k)"
    by auto
  from missing have "\<exists>k<4. count_list labels k = 0" by (simp add: count_list_0_iff)
  from class_weights_of_zero [OF d'(2) this] d'(1) show ?thesis
    by (simp add: calculate_class_ratios_def)
qed

theorem class_weights_zero_count_raises_witness:
  "mapE resolve_label [''/d/gleason_5_1.png'', ''/d/gleason_3_7.png''] = Inr [3, 1]
   \<and> \<not> {0, 1, 2, 3} \<subseteq> set [3, 1 :: nat]
   \<and> calculate_class_ratios [''/d/gleason_5_1.png'', ''/d/gleason_3_7.png'']
       = Inl ZeroDivisionError"
proof -
  have h1: "mapE resolve_label [''/d/gleason_5_1.png'', ''/d/gleason_3_7.png''] = Inr [3, 1]"
    by code_simp
  have h2: "\<not> {0, 1, 2, 3} \<subseteq> set [3, 1 :: nat]"
    by simp
  from class_weights_zero_count_raises [OF h1 h2] h1 h2 show ?thesis by blast
qed

text \<open>
  The claim as stated, with a ConfigurationError, fails: with files of class 3 only, the
  exception raised is \<^verbatim>\<open>ZeroDivisionError\<close>, the one of the bare division.
\<close>

theorem class_weights_zero_count_counterexample:
  "calculate_class_ratios [''/d/gleason_5_1.png''] = Inl ZeroDivisionError
   \<and> calculate_class_ratios [''/d/gleason_5_1.png''] \<noteq> Inl ConfigurationError"
proof -
  have "calculate_class_ratios [''/d/gleason_5_1.png''] = Inl ZeroDivisionError"
    by code_simp
  then show ?thesis by simp
qed

text \<open>
  Claim C8. When the files all resolve to a label and each of the four classes occurs,
  the function returns a vector of four weights; weight \<open>i\<close> is the inverse frequency
  \<open>total / count i\<close> over the sum of the four inverse frequencies; the weights are
  non-negative and add up to 1 (exactly, the floats being idealised as rationals).
\<close>

theorem class_weights_nondegenerate:
  assumes "mapE resolve_label files = Inr labels" and "{0, 1, 2, 3} \<subseteq> set labels"
  shows "\<exists>ws. calculate_class_ratios files = Inr ws
      \<and> length ws = 4
      \<and> (\<forall>i<4. ws ! i = inverse_frequency labels i
             / (inverse_frequency labels 0 + inverse_frequency labels 1
                + inverse_frequency labels 2 + inverse_frequency labels 3))
      \<and> (\<forall>i<4. 0 \<le> ws ! i)
      \<and> sum_list ws = 1"
proof -
  let ?f = "inverse_frequency labels"
  let ?s = "?f 0 + ?f 1 + ?f 2 + ?f 3"
  let ?ws = "[?f 0 / ?s, ?f 1 / ?s, ?f 2 / ?s, ?f 3 / ?s]"
  from count_labels_dic0 [OF assms(1)] obtain d' where
    d': "count_labels targe_label_dic0 files = Inr d'"
        "\<forall>k<4. d' k = Some (count_list labels k)"
    by auto
  have occurs: "\<forall>k<4. k \<in> set labels"
    using assms(2) by (auto simp: less_Suc_eq eval_nat_numeral)
  have cpos: "\<forall>k<4. 0 < count_list labels k"
    using occurs count_list_0_iff [of labels] by auto
  have "class_weights_of d' = Inr ?ws"
    using class_weights_of_pos [OF d'(2) cpos] by (simp add: inverse_frequency_def)
  then have res: "calculate_class_ratios files = Inr ?ws"
    using d'(1) by (simp add: calculate_class_ratios_def)
  have fpos: "0 < ?f 0" "0 < ?f 1" "0 < ?f 2" "0 < ?f 3"
    using occurs by (simp_all add: inverse_frequency_pos)
  then have spos: "0 < ?s" by simp
  have nth: "\<forall>i<4. ?ws ! i = ?f i / ?s"
    by (auto simp: less_Suc_eq eval_nat_numeral)
  have nonneg: "\<forall>i<4. 0 \<le> ?ws ! i"
    using fpos spos by (auto simp: less_Suc_eq eval_nat_numeral)
  have one: "sum_list ?ws = 1"
    using spos by (rule sum_list_normalised [OF refl])
  have len: "length ?ws = 4" by simp
  from res len nth nonneg one show ?thesis by blast
qed

theorem class_weights_nondegenerate_witness:
  "mapE resolve_label [''/d/Gleason_5_1.png'', ''/d/benign_0_2.png'', ''/d/gleason_4_3.png'',
       ''/d/gleason_3_4.png'', ''/d/benign_0_5.png''] = Inr [3, 0, 2, 1, 0]
   \<and> {0, 1, 2, 3} \<subseteq> set [3, 0, 2, 1, 0 :: nat]
   \<and> (\<exists>ws. calculate_class_ratios [''/d/Gleason_5_1.png'', ''/d/benign_0_2.png'',
           ''/d/gleason_4_3.png'', ''/d/gleason_3_4.png'', ''/d/benign_0_5.png''] = Inr ws
        \<and> length ws = 4 \<and> sum_list ws = 1)"
proof -
  have h1: "mapE resolve_label [''/d/Gleason_5_1.png'', ''/d/benign_0_2.png'',
       ''/d/gleason_4_3.png'', ''/d/gleason_3_4.png'', ''/d/benign_0_5.png'']
       = Inr [3, 0, 2, 1, 0]"
    by code_simp
  have h2: "{0, 1, 2, 3} \<subseteq> set [3, 0, 2, 1, 0 :: nat]"
    by simp
  from class_weights_nondegenerate [OF h1 h2] h1 h2 show ?thesis by blast
qed

section \<open>Properties of the sidecar name and the bulk encoder\<close>

lemma rfind_from_absent: "c \<notin> set xs \<Longrightarrow> rfind_from c i found xs = found"
  by (induction xs arbitrary: i found) auto

lemma rfind_from_last:
  "c \<notin> set ys \<Longrightarrow> rfind_from c i found (xs @ c # ys) = i + int (length xs)"
  by (induction xs arbitrary: i found) (auto simp: rfind_from_absent)

lemma rfind_from_append_absent:
  "c \<notin> set ys \<Longrightarrow> rfind_from c i found (xs @ ys) = rfind_from c i found xs"
  by (induction xs arbitrary: i found) (auto simp: rfind_from_absent)

lemma skip_leading_dots_eq:
  "skip_leading_dots p i d =
     (if \<exists>j. i \<le> j \<and> j < d \<and> p ! j \<noteq> CHR ''.'' then (take d p, drop d p) else (p, []))"
proof (induction p i d rule: skip_leading_dots.induct)
  case (1 p i d)
  show ?case
  proof (cases "i < d")
    case False
    then show ?thesis by (subst skip_leading_dots.simps) auto
  next
    case True
    show ?thesis
    proof (cases "p ! i \<noteq> CHR ''.''")
      case True
      with \<open>i < d\<close> show ?thesis by (subst skip_leading_dots.simps) auto
    next
      case False
      then have eq: "skip_leading_dots p i d = skip_leading_dots p (i + 1) d"
        using \<open>i < d\<close> by (subst skip_leading_dots.simps) simp
      have "(\<exists>j. i \<le> j \<and> j < d \<and> p ! j \<noteq> CHR ''.'') \<longleftrightarrow> (\<exists>j. i + 1 \<le> j \<and> j < d \<and> p ! j \<noteq> CHR ''.'')"
        using False by (metis Suc_eq_plus1 Suc_leI le_neq_implies_less Suc_leD)
      then show ?thesis using eq "1.IH" [OF \<open>i < d\<close>] False by simp
    qed
  qed
qed

lemma rfind_sep:
  assumes "dir = [] \<or> last dir = CHR ''/''" and "CHR ''/'' \<notin> set name"
  shows "rfind (dir @ name) (CHR ''/'') = int (length dir) - 1"
proof (cases "dir = []")
  case True
  then show ?thesis using assms(2) by (simp add: rfind_def rfind_from_absent)
next
  case False
  with assms(1) have "dir = butlast dir @ [CHR ''/'']"
    by (metis append_butlast_last_id)
  then obtain d where d: "dir = d @ [CHR ''/'']" ..
  have "rfind (dir @ name) (CHR ''/'') = 0 + int (length d)"
    unfolding rfind_def d using rfind_from_last [OF assms(2), of 0 "-1" d] by simp
  then show ?thesis by (simp add: d)
qed


lemma rfind_from_result:
  "rfind_from c i found xs = found
   \<or> (i \<le> rfind_from c i found xs \<and> rfind_from c i found xs < i + int (length xs)
      \<and> xs ! nat (rfind_from c i found xs - i) = c)"
proof (cases "c \<in> set xs")
  case False
  then show ?thesis by (simp add: rfind_from_absent)
next
  case True
  then obtain a b where ab: "xs = a @ c # b" "c \<notin> set b"
    using split_list_last by fastforce
  then show ?thesis by (simp add: rfind_from_last)
qed

text \<open>A dot of the directory part is never after the last separator.\<close>

lemma rfind_dot_in_dir:
  assumes "dir = [] \<or> last dir = CHR ''/''"
  shows "rfind dir (CHR ''.'') \<le> int (length dir) - 1 \<and> rfind dir (CHR ''.'') \<noteq> int (length dir) - 1
         \<or> dir = []"
proof (cases "dir = []")
  case True
  then show ?thesis by simp
next
  case False
  with assms have l: "last dir = CHR ''/''" by simp
  let ?r = "rfind_from (CHR ''.'') 0 (-1) dir"
  from rfind_from_result [of "CHR ''.''" 0 "-1" dir]
  consider "?r = -1" | "0 \<le> ?r" "?r < int (length dir)" "dir ! nat ?r = CHR ''.''"
    by auto
  then have "?r \<le> int (length dir) - 1 \<and> ?r \<noteq> int (length dir) - 1"
  proof cases
    case 1
    then show ?thesis using False by (cases dir) auto
  next
    case 2
    have "?r \<noteq> int (length dir) - 1"
    proof
      assume e: "?r = int (length dir) - 1"
      then have "nat ?r = length dir - 1" by simp
      with 2(3) have "dir ! (length dir - 1) = CHR ''.''" by simp
      with l False show False by (simp add: last_conv_nth)
    qed
    with 2(2) show ?thesis by simp
  qed
  then show ?thesis by (simp add: rfind_def)
qed

lemma splitext_no_dot:
  assumes "dir = [] \<or> last dir = CHR ''/''" and "CHR ''/'' \<notin> set name"
    and "CHR ''.'' \<notin> set name"
  shows "splitext (dir @ name) = (dir @ name, [])"
proof -
  have sep: "rfind (dir @ name) (CHR ''/'') = int (length dir) - 1"
    using assms(1,2) by (rule rfind_sep)
  have dot: "rfind (dir @ name) (CHR ''.'') = rfind dir (CHR ''.'')"
    using assms(3) by (simp add: rfind_def rfind_from_append_absent)
  have "rfind dir (CHR ''.'') \<le> int (length dir) - 1"
    using rfind_dot_in_dir [OF assms(1)] by (auto simp: rfind_def)
  then show ?thesis by (simp add: splitext_def sep dot Let_def)
qed

lemma splitext_dot:
  assumes "dir = [] \<or> last dir = CHR ''/''" and "CHR ''/'' \<notin> set a" and "CHR ''/'' \<notin> set b"
    and "CHR ''.'' \<notin> set b"
  shows "splitext (dir @ a @ CHR ''.'' # b) =
     (if list_ex (\<lambda>c. c \<noteq> CHR ''.'') a then (dir @ a, CHR ''.'' # b)
      else (dir @ a @ CHR ''.'' # b, []))"
proof -
  let ?p = "dir @ a @ CHR ''.'' # b"
  have "CHR ''/'' \<notin> set (a @ CHR ''.'' # b)" using assms(2,3) by simp
  with assms(1) have sep: "rfind ?p (CHR ''/'') = int (length dir) - 1"
    by (rule rfind_sep)
  have dot: "rfind ?p (CHR ''.'') = int (length dir + length a)"
    using rfind_from_last [OF assms(4), of 0 "-1" "dir @ a"] by (simp add: rfind_def)
  have ex: "(\<exists>j. length dir \<le> j \<and> j < length dir + length a \<and> ?p ! j \<noteq> CHR ''.'')
        \<longleftrightarrow> list_ex (\<lambda>c. c \<noteq> CHR ''.'') a"
  proof
    assume "\<exists>j. length dir \<le> j \<and> j < length dir + length a \<and> ?p ! j \<noteq> CHR ''.''"
    then obtain j where j: "length dir \<le> j" "j < length dir + length a" "?p ! j \<noteq> CHR ''.''"
      by blast
    from j(1,2) have jl: "j - length dir < length a" by arith
    with j(1) have "?p ! j = a ! (j - length dir)" by (simp add: nth_append)
    with j jl have "a ! (j - length dir) \<noteq> CHR ''.''" "j - length dir < length a" by auto
    then show "list_ex (\<lambda>c. c \<noteq> CHR ''.'') a"
      unfolding list_ex_iff using nth_mem by blast
  next
    assume "list_ex (\<lambda>c. c \<noteq> CHR ''.'') a"
    then obtain k where k: "k < length a" "a ! k \<noteq> CHR ''.''"
      unfolding list_ex_iff by (metis in_set_conv_nth)
    then have "?p ! (length dir + k) = a ! k" by (simp add: nth_append)
    with k show "\<exists>j. length dir \<le> j \<and> j < length dir + length a \<and> ?p ! j \<noteq> CHR ''.''"
      by (intro exI [of _ "length dir + k"]) simp
  qed
  have "splitext ?p = skip_leading_dots ?p (length dir) (length dir + length a)"
    unfolding splitext_def sep dot Let_def by (simp add: nat_add_distrib)
  also have "\<dots> = (if list_ex (\<lambda>c. c \<noteq> CHR ''.'') a
        then (take (length dir + length a) ?p, drop (length dir + length a) ?p) else (?p, []))"
    unfolding skip_leading_dots_eq ex ..
  finally show ?thesis by simp
qed

lemma spec_strip_extension_no_dot:
  "CHR ''.'' \<notin> set name \<Longrightarrow> spec_strip_extension name = name"
  by (simp add: spec_strip_extension_def Let_def)

lemma spec_strip_extension_dot:
  assumes "CHR ''.'' \<notin> set b"
  shows "spec_strip_extension (a @ CHR ''.'' # b) =
     (if list_ex (\<lambda>c. c \<noteq> CHR ''.'') a then a else a @ CHR ''.'' # b)"
proof -
  have "dropWhile (\<lambda>c. c \<noteq> CHR ''.'') (rev b @ CHR ''.'' # rev a) = CHR ''.'' # rev a"
    using assms by (subst dropWhile_append2) auto
  then show ?thesis by (simp add: spec_strip_extension_def Let_def)
qed

lemma metafilename_strip:
  assumes "dir = [] \<or> last dir = CHR ''/''" and "CHR ''/'' \<notin> set name"
  shows "tfrecord2metafilename (dir @ name) = dir @ spec_strip_extension name @ ''_meta.npz''"
proof (cases "CHR ''.'' \<in> set name")
  case False
  with assms show ?thesis
    by (simp add: tfrecord2metafilename_def splitext_no_dot spec_strip_extension_no_dot)
next
  case True
  then obtain a b where ab: "name = a @ CHR ''.'' # b" "CHR ''.'' \<notin> set b"
    using split_list_last by fastforce
  with assms(2) have "CHR ''/'' \<notin> set a" "CHR ''/'' \<notin> set b" by auto
  from splitext_dot [OF assms(1) this ab(2)] show ?thesis
    by (simp add: ab tfrecord2metafilename_def spec_strip_extension_dot)
qed


lemma splitext_cases:
  "splitext p = (p, [])
   \<or> (0 \<le> rfind p (CHR ''.'') \<and> splitext p = (take (nat (rfind p (CHR ''.''))) p, drop (nat (rfind p (CHR ''.''))) p))"
proof (cases "rfind p (CHR ''.'') > rfind p (CHR ''/'')")
  case False
  then show ?thesis by (simp add: splitext_def Let_def)
next
  case True
  have "- 1 \<le> rfind p (CHR ''/'')"
    using rfind_from_result [of "CHR ''/''" 0 "-1" p] by (auto simp: rfind_def)
  with True have nonneg: "0 \<le> rfind p (CHR ''.'')" by simp
  have e: "splitext p = skip_leading_dots p (nat (rfind p (CHR ''/'') + 1)) (nat (rfind p (CHR ''.'')))"
    using True by (simp only: splitext_def Let_def if_True)
  have "skip_leading_dots p i d = (p, []) \<or> skip_leading_dots p i d = (take d p, drop d p)" for i d
    unfolding skip_leading_dots_eq by (cases "\<exists>j\<ge>i. j < d \<and> p ! j \<noteq> CHR ''.''") (simp_all only: if_True if_False simp_thms)
  from this [of "nat (rfind p (CHR ''/'') + 1)" "nat (rfind p (CHR ''.''))"] e nonneg
  show ?thesis by (simp only:) blast
qed

lemma splitext_parts:
  assumes "splitext p = (base, ext)"
  shows "base @ ext = p \<and> (ext = [] \<or> hd ext = CHR ''.'')"
proof -
  let ?r = "rfind p (CHR ''.'')"
  from splitext_cases [of p] consider "splitext p = (p, [])"
    | "0 \<le> ?r" "splitext p = (take (nat ?r) p, drop (nat ?r) p)" by blast
  then show ?thesis
  proof cases
    case 1
    with assms show ?thesis by simp
  next
    case 2
    from rfind_from_result [of "CHR ''.''" 0 "-1" p] 2(1)
    have r: "?r < int (length p)" "p ! nat ?r = CHR ''.''"
      by (auto simp: rfind_def)
    then have "nat ?r < length p" using 2(1) by simp
    then have "hd (drop (nat ?r) p) = CHR ''.''"
      using r(2) by (simp add: hd_drop_conv_nth)
    with 2(2) assms show ?thesis by simp
  qed
qed

lemma metafilename_differs: "tfrecord2metafilename name \<noteq> name"
proof
  assume eq: "tfrecord2metafilename name = name"
  obtain base ext where be: "splitext name = (base, ext)" by (cases "splitext name")
  from splitext_parts [OF be] have p: "base @ ext = name" "ext = [] \<or> hd ext = CHR ''.''"
    by simp_all
  from eq be p(1) have "base @ ''_meta.npz'' = base @ ext"
    by (simp add: tfrecord2metafilename_def)
  then have "ext = ''_meta.npz''" by simp
  with p(2) show False by simp
qed

lemma length_successes: "length (successes rs) = length rs - failures rs"
proof (induction rs rule: successes.induct)
  case 1
  then show ?case by (simp add: failures_def)
next
  case (2 x rs)
  have "length (filter isl rs) \<le> length rs" by (rule length_filter_le)
  with 2 show ?case by (simp add: failures_def Suc_diff_le)
next
  case (3 e rs)
  then show ?case by (simp add: failures_def)
qed

lemma successes_filter: "map Inr (successes rs) = filter (\<lambda>r. \<not> isl r) rs"
  by (induction rs rule: successes.induct) auto

lemma write_examples_result:
  assumes "disk w name = Some (TFRecordFile rs)"
  shows "write_examples name futures w =
     w\<lparr>disk := (disk w)(name \<mapsto> TFRecordFile (rs @ successes futures)),
       events := events w @ map (Wrote name) (successes futures)\<rparr>"
  using assms
proof (induction futures arbitrary: w rs)
  case Nil
  then have "(disk w)(name \<mapsto> TFRecordFile rs) = disk w" by (simp add: fun_upd_idem)
  then show ?case by simp
next
  case (Cons future futures)
  show ?case
  proof (cases future)
    case (Inl e)
    with Cons show ?thesis by simp
  next
    case (Inr ex)
    let ?w = "writer_write name ex w"
    have dw: "disk ?w = (disk w)(name \<mapsto> TFRecordFile (rs @ [ex]))"
      using Cons.prems by (simp add: writer_write_def records_of_def)
    have ew: "events ?w = events w @ [Wrote name ex]"
      by (simp add: writer_write_def)
    have upd: "?w\<lparr>disk := D, events := E\<rparr> = w\<lparr>disk := D, events := E\<rparr>" for D E
      by (simp add: writer_write_def)
    have d: "disk ?w name = Some (TFRecordFile (rs @ [ex]))"
      by (simp add: dw)
    have "write_examples name (future # futures) w = write_examples name futures ?w"
      using Inr by simp
    also have "\<dots> = w\<lparr>disk := ((disk w)(name \<mapsto> TFRecordFile (rs @ [ex])))
                           (name \<mapsto> TFRecordFile ((rs @ [ex]) @ successes futures)),
                       events := (events w @ [Wrote name ex]) @ map (Wrote name) (successes futures)\<rparr>"
      unfolding Cons.IH [OF d] dw ew upd ..
    also have "\<dots> = w\<lparr>disk := (disk w)(name \<mapsto> TFRecordFile (rs @ successes (future # futures))),
                       events := events w @ map (Wrote name) (successes (future # futures))\<rparr>"
      using Inr by simp
    finally show ?thesis .
  qed
qed

lemma create_tf_record_result:
  fixes w :: world and name :: string and file_pointers :: "string list"
    and target_labels :: "int list"
  defines "futures \<equiv> submit_all ((disk w)(name \<mapsto> TFRecordFile [])) file_pointers target_labels"
  defines "contents \<equiv> \<lparr>npz_file_pointers = file_pointers, npz_labels = target_labels,
                         npz_output_pointer = name\<rparr>"
  shows "create_tf_record name file_pointers target_labels w =
     w\<lparr>disk := (disk w)(name \<mapsto> TFRecordFile (successes futures),
                       tfrecord2metafilename name \<mapsto> NpzFile contents),
       events := events w @ [Opened name] @ map (Wrote name) (successes futures)
                   @ [Saved (tfrecord2metafilename name) contents]\<rparr>"
proof -
  let ?w1 = "TFRecordWriter name w"
  have d1: "disk ?w1 name = Some (TFRecordFile [])" by (simp add: TFRecordWriter_def)
  have dw: "disk ?w1 = (disk w)(name \<mapsto> TFRecordFile [])"
    by (simp add: TFRecordWriter_def)
  have ew: "events ?w1 = events w @ [Opened name]"
    by (simp add: TFRecordWriter_def)
  have upd: "?w1\<lparr>disk := D, events := E\<rparr> = w\<lparr>disk := D, events := E\<rparr>" for D E
    by (simp add: TFRecordWriter_def)
  have w2: "write_examples name futures ?w1 =
      w\<lparr>disk := (disk w)(name \<mapsto> TFRecordFile (successes futures)),
        events := events w @ [Opened name] @ map (Wrote name) (successes futures)\<rparr>"
    unfolding write_examples_result [OF d1] dw ew upd by simp
  have "create_tf_record name file_pointers target_labels w =
      savez (tfrecord2metafilename name) contents (write_examples name futures ?w1)"
    by (simp add: create_tf_record_def Let_def dw futures_def contents_def)
  also have "\<dots> = w\<lparr>disk := (disk w)(name \<mapsto> TFRecordFile (successes futures),
                       tfrecord2metafilename name \<mapsto> NpzFile contents),
       events := events w @ [Opened name] @ map (Wrote name) (successes futures)
                   @ [Saved (tfrecord2metafilename name) contents]\<rparr>"
    unfolding w2 by (simp add: savez_def)
  finally show ?thesis .
qed

text \<open>
  Claim C2. The bulk encoder runs \<open>encode\<close> on each of the \<open>N\<close> input pairs, on the file
  system as it is once the container has been opened. After the call the container holds
  exactly the examples of the calls that returned, in the order of the input pairs (the
  list of the calls' outcomes with the raised ones filtered out), so with \<open>K\<close> calls that
  raise it holds \<open>N - K\<close> records; a raise is skipped and the run goes on to the end.
\<close>

theorem bulk_encoder_keeps_successes_in_order:
  "disk (create_tf_record name file_pointers target_labels w) name
     = Some (TFRecordFile
         (successes (map (\<lambda>(f, t_l). encode ((disk w)(name \<mapsto> TFRecordFile [])) f t_l)
                       (zip file_pointers target_labels))))
   \<and> map Inr (successes (map (\<lambda>(f, t_l). encode ((disk w)(name \<mapsto> TFRecordFile [])) f t_l)
                            (zip file_pointers target_labels)))
     = filter (\<lambda>r. \<not> isl r)
         (map (\<lambda>(f, t_l). encode ((disk w)(name \<mapsto> TFRecordFile [])) f t_l)
            (zip file_pointers target_labels))
   \<and> length (successes (map (\<lambda>(f, t_l). encode ((disk w)(name \<mapsto> TFRecordFile [])) f t_l)
                           (zip file_pointers target_labels)))
     = length (zip file_pointers target_labels)
       - failures (map (\<lambda>(f, t_l). encode ((disk w)(name \<mapsto> TFRecordFile [])) f t_l)
                     (zip file_pointers target_labels))"
proof -
  let ?futures = "map (\<lambda>(f, t_l). encode ((disk w)(name \<mapsto> TFRecordFile [])) f t_l)
                    (zip file_pointers target_labels)"
  have f: "submit_all ((disk w)(name \<mapsto> TFRecordFile [])) file_pointers target_labels = ?futures"
    by (simp add: submit_all_def)
  have "disk (create_tf_record name file_pointers target_labels w) name
      = Some (TFRecordFile (successes ?futures))"
    unfolding create_tf_record_result f using metafilename_differs [of name] by simp
  moreover have "map Inr (successes ?futures) = filter (\<lambda>r. \<not> isl r) ?futures"
    by (rule successes_filter)
  moreover have "length (successes ?futures)
      = length (zip file_pointers target_labels) - failures ?futures"
    by (simp add: length_successes)
  ultimately show ?thesis by blast
qed

text \<open>
  Claim C5. A run of the bulk encoder opens the container, writes the successful examples
  and then saves the sidecar: the sidecar is saved once, as the last operation, and holds
  the whole input list of paths, the whole input list of labels and the container's path,
  whatever number of items failed to encode.
\<close>

theorem sidecar_written_once_with_all_inputs:
  "events (create_tf_record name file_pointers target_labels w)
     = events w @ [Opened name]
       @ map (Wrote name)
           (successes (submit_all ((disk w)(name \<mapsto> TFRecordFile [])) file_pointers target_labels))
       @ [Saved (tfrecord2metafilename name)
            \<lparr>npz_file_pointers = file_pointers, npz_labels = target_labels,
             npz_output_pointer = name\<rparr>]
   \<and> saves (drop (length (events w)) (events (create_tf_record name file_pointers target_labels w)))
     = [(tfrecord2metafilename name,
         \<lparr>npz_file_pointers = file_pointers, npz_labels = target_labels,
          npz_output_pointer = name\<rparr>)]
   \<and> disk (create_tf_record name file_pointers target_labels w) (tfrecord2metafilename name)
     = Some (NpzFile \<lparr>npz_file_pointers = file_pointers, npz_labels = target_labels,
                      npz_output_pointer = name\<rparr>)"
proof -
  have saves_wrote: "saves (map (Wrote name) xs @ es) = saves es" for xs es
    by (induction xs) simp_all
  show ?thesis
    unfolding create_tf_record_result by (simp add: saves_wrote)
qed

text \<open>Every path is a directory part (empty or ending in a slash) followed by a name
  without a slash.\<close>

lemma path_dir_name:
  "\<exists>dir name. p = dir @ name \<and> (dir = [] \<or> last dir = CHR ''/'') \<and> CHR ''/'' \<notin> set name"
proof (cases "CHR ''/'' \<in> set p")
  case False
  then have "p = [] @ p \<and> (([]::string) = [] \<or> last [] = CHR ''/'') \<and> CHR ''/'' \<notin> set p"
    by simp
  then show ?thesis by blast
next
  case True
  then obtain a b where ab: "p = a @ CHR ''/'' # b" "CHR ''/'' \<notin> set b"
    using split_list_last by fastforce
  then have "p = (a @ ''/'') @ b \<and> (a @ ''/'' = [] \<or> last (a @ ''/'') = CHR ''/'')
      \<and> CHR ''/'' \<notin> set b"
    by simp
  then show ?thesis by blast
qed

text \<open>
  Claim C10. For every container path, read as a directory part and a file name (every
  path is one, by \<open>path_dir_name\<close>), the sidecar path is the directory part, the file
  name without its extension and \<open>_meta.npz\<close>; it is the path under which the bulk
  encoder saves the sidecar, as its last operation. (\<open>train.tfrecords\<close> gives
  \<open>train_meta.npz\<close>.)
\<close>

theorem sidecar_name_strips_extension:
  assumes "dir = [] \<or> last dir = CHR ''/''" and "CHR ''/'' \<notin> set name"
  shows "tfrecord2metafilename (dir @ name) = dir @ spec_strip_extension name @ ''_meta.npz''
   \<and> disk (create_tf_record (dir @ name) file_pointers target_labels w)
        (dir @ spec_strip_extension name @ ''_meta.npz'')
     = Some (NpzFile \<lparr>npz_file_pointers = file_pointers, npz_labels = target_labels,
                      npz_output_pointer = dir @ name\<rparr>)
   \<and> last (events (create_tf_record (dir @ name) file_pointers target_labels w))
     = Saved (dir @ spec_strip_extension name @ ''_meta.npz'')
         \<lparr>npz_file_pointers = file_pointers, npz_labels = target_labels,
          npz_output_pointer = dir @ name\<rparr>"
proof -
  have m: "tfrecord2metafilename (dir @ name) = dir @ spec_strip_extension name @ ''_meta.npz''"
    using assms by (rule metafilename_strip)
  show ?thesis
    unfolding create_tf_record_result m by simp
qed

theorem sidecar_name_strips_extension_witness:
  "([] = [] \<or> last [] = CHR ''/'') \<and> CHR ''/'' \<notin> set ''train.tfrecords''
   \<and> tfrecord2metafilename ''train.tfrecords'' = ''train_meta.npz''"
proof -
  have h1: "([]::string) = [] \<or> last [] = CHR ''/''" by simp
  have h2: "CHR ''/'' \<notin> set ''train.tfrecords''" by simp
  have s: "spec_strip_extension ''train.tfrecords'' = ''train''" by code_simp
  from sidecar_name_strips_extension [OF h1 h2] h2 show ?thesis
    by (simp add: s)
qed

section \<open>Properties of the record codec\<close>

lemma astype_roundtrip: "astype_uint8 (astype_float32 b) = b"
proof -
  have "\<not> (of_nat (unat b) :: rat) < 0" by (simp only: of_nat_less_0_iff not_False_eq_True)
  moreover have "\<lfloor>(of_nat (unat b) :: rat)\<rfloor> = int (unat b)" by (rule floor_of_nat)
  ultimately have "astype_uint8 (astype_float32 b) = word_of_int (int (unat b))"
    unfolding astype_uint8_def astype_float32_def by (simp only: if_False)
  then show ?thesis by simp
qed



lemma chunk_concat:
  "\<forall>x\<in>set xss. length x = n \<Longrightarrow> chunk (length xss) n (concat xss) = xss"
  by (induction xss) auto

lemma length_concat_uniform:
  "\<forall>x\<in>set xss. length x = n \<Longrightarrow> length (concat xss) = length xss * n"
  by (induction xss) auto

lemma reshape3_flatten:
  assumes "has_shape (h, w, c) img"
  shows "reshape3 (concat (concat img)) (h, w, c) = Inr img"
proof -
  from assms have len: "length img = h"
    and rows: "\<forall>row\<in>set img. length row = w"
    and pxs: "\<forall>row\<in>set img. \<forall>px\<in>set row. length px = c"
    by (auto simp: has_shape_def list_all_iff)
  have rowlen: "\<forall>r\<in>set (map concat img). length r = w * c"
    using rows pxs by (auto simp: length_concat_uniform)
  have "concat (concat img) = concat (map concat img)"
    by (induction img) simp_all
  moreover have "length (concat (map concat img)) = h * w * c"
    using length_concat_uniform [OF rowlen] len by simp
  moreover have "chunk h (w * c) (concat (map concat img)) = map concat img"
    using chunk_concat [OF rowlen] len by simp
  moreover have "map (chunk w c) (map concat img) = img"
  proof -
    have "chunk w c (concat row) = row" if "row \<in> set img" for row
      using chunk_concat [of row c] rows pxs that by auto
    then show ?thesis by (simp add: map_idI)
  qed
  ultimately show ?thesis by (simp add: reshape3_def)
qed



lemma encode_result:
  assumes "fs img_path = Some (ImageFile (Array3 a))"
    and "list_all (\<lambda>c. (of_char c :: nat) < 128) img_path"
    and "- (2 ^ 63) \<le> target_label" and "target_label < 2 ^ 63"
  shows "encode fs img_path target_label =
     Inr [(''image_raw'', BytesList [tostring (map (map (take 3)) a)]),
          (''file_path'', BytesList [img_path]),
          (''target_label'', Int64List [word_of_int target_label])]"
proof -
  have "map (map (map astype_uint8)) (map (map (map astype_float32)) x) = x" for x
    by (simp add: comp_def astype_roundtrip)
  then show ?thesis
    using assms
    by (simp add: encode_def Image_open_def first_three_channels_def encode_utf8_def
        int64_feature_def bytes_feature_def Let_def)
qed





section \<open>Properties of the pipeline\<close>

lemma chunk_tile: "length xs = n \<Longrightarrow> chunk b n (tile xs b) = replicate b xs"
  using chunk_concat [of "replicate b xs" n] by (simp add: tile_def)

lemma flatten_shape:
  assumes "has_shape (h, w, c) img"
  shows "length (concat (concat img)) = h * w * c"
    and "map (chunk w c) (chunk h (w * c) (concat (concat img))) = img"
  using reshape3_flatten [OF assms] by (auto simp: reshape3_def split: if_splits)

lemma reshape4_flatten4:
  assumes "length imgs = b" and "list_all (has_shape (h, w, c)) imgs"
  shows "reshape4 (flatten4 imgs) b (h, w, c) = Inr imgs"
proof -
  let ?f = "\<lambda>e. concat (concat e)"
  have sh: "\<forall>e\<in>set imgs. has_shape (h, w, c) e"
    using assms(2) by (simp add: list_all_iff)
  have "length (?f e) = h * w * c" if "e \<in> set imgs" for e
    using that sh by (intro flatten_shape(1)) blast
  then have el: "\<forall>x\<in>set (map ?f imgs). length x = h * w * c"
    by auto
  have len: "length (flatten4 imgs) = b * h * w * c"
    using length_concat_uniform [OF el] assms(1) by (simp add: flatten4_def mult.assoc)
  have ch: "chunk b (h * w * c) (flatten4 imgs) = map ?f imgs"
    using chunk_concat [OF el] assms(1) by (simp add: flatten4_def)
  have "map (chunk w c) (chunk h (w * c) (?f e)) = e" if "e \<in> set imgs" for e
    using that sh by (intro flatten_shape(2)) blast
  then have "map (\<lambda>e. map (chunk w c) (chunk h (w * c) e)) (map ?f imgs) = imgs"
    by (simp add: map_idI)
  with len ch show ?thesis by (simp add: reshape4_def)
qed

lemma stack_last_shape:
  assumes "has_shape2 (h, w) X" and "has_shape2 (h, w) Y"
  shows "has_shape (h, w, 2) (stack_last X Y)"
proof -
  from assms have lx: "length X = h" and ly: "length Y = h"
    and rx: "\<forall>r\<in>set X. length r = w" and ry: "\<forall>r\<in>set Y. length r = w"
    by (auto simp: has_shape2_def list_all_iff)
  have "\<forall>p\<in>set (zip X Y). length (fst p) = w \<and> length (snd p) = w"
    using rx ry by (auto dest: set_zip_leftD set_zip_rightD)
  then show ?thesis
    using lx ly by (auto simp: has_shape_def stack_last_def list_all_iff)
qed

lemma reshape4_tile:
  assumes "has_shape (h, w, c) fld"
  shows "reshape4 (tile (concat (concat fld)) b) b (h, w, c) = Inr (replicate b fld)"
proof -
  have "tile (concat (concat fld)) b = flatten4 (replicate b fld)"
    by (simp add: tile_def flatten4_def)
  moreover have "list_all (has_shape (h, w, c)) (replicate b fld)"
    using assms by (simp add: list_all_iff)
  ultimately show ?thesis using reshape4_flatten4 [of "replicate b fld" b h w c] by simp
qed

lemma zip_replicate_map:
  "map (\<lambda>(im, flow). f im flow) (zip imgs (replicate (length imgs) fld)) = map (\<lambda>im. f im fld) imgs"
  by (induction imgs) simp_all

lemma warp_batch_shared:
  assumes "has_shape2 (m0, m1) X" and "has_shape2 (m0, m1) Y"
    and "length img = size_of_batch" and "list_all (has_shape (m0, m1, m2)) img"
  shows "warp_batch ops (m0, m1, m2) size_of_batch (X, Y) img
     = Inr (map (\<lambda>im. tf_dense_image_warp ops im (stack_last X Y)) img)"
proof -
  have t: "reshape4 (tile (concat (concat (stack_last X Y))) size_of_batch) size_of_batch (m0, m1, 2)
      = Inr (replicate size_of_batch (stack_last X Y))"
    using stack_last_shape [OF assms(1,2)] by (rule reshape4_tile)
  have i: "reshape4 (flatten4 img) size_of_batch (m0, m1, m2) = Inr img"
    using assms(3,4) by (rule reshape4_flatten4)
  show ?thesis
    unfolding warp_batch_def using zip_replicate_map [of "tf_dense_image_warp ops" img "stack_last X Y"]
    by (simp add: t i Let_def assms(3))
qed


lemma mapE_length: "mapE f xs = Inr ys \<Longrightarrow> length ys = length xs"
  by (induction xs arbitrary: ys) (auto split: sum.splits)

text \<open>
  Claim C9. With the warp enabled, a run that delivers \<open>size_of_batch\<close> examples of the
  model's shape uses the one pair of displacement fields of the run for the whole batch:
  the tiled and reshaped flow tensor is \<open>size_of_batch\<close> copies of the field that pairs
  \<open>X_convolved\<close> and \<open>Y_convolved\<close> point by point, and every image of the batch is
  warped by that same field.
\<close>

theorem elastic_warp_shared_across_batch:
  assumes "warp dic"
    and "mapE (example_pipeline ops dic img_dims (m0, m1, m2)) filename_queue = Inr examples"
    and "list_all (has_shape (m0, m1, m2)) (map fst examples)"
    and "length filename_queue = size_of_batch"
    and "has_shape2 (m0, m1) X_convolved" and "has_shape2 (m0, m1) Y_convolved"
  shows "read_and_decode ops filename_queue img_dims (m0, m1, m2) size_of_batch dic
        (X_convolved, Y_convolved)
     = Inr ((if grayscale dic then map (tf_rgb_to_grayscale ops) else id)
              (map (\<lambda>im. tf_dense_image_warp ops im (stack_last X_convolved Y_convolved))
                 (map fst examples)),
            map (\<lambda>e. fst (snd e)) examples, map (\<lambda>e. snd (snd e)) examples)
   \<and> reshape4 (tile (concat (concat (stack_last X_convolved Y_convolved))) size_of_batch)
        size_of_batch (m0, m1, 2)
     = Inr (replicate size_of_batch (stack_last X_convolved Y_convolved))"
proof -
  have len: "length (map fst examples) = size_of_batch"
    using mapE_length [OF assms(2)] assms(4) by simp
  have w: "warp_batch ops (m0, m1, m2) size_of_batch (X_convolved, Y_convolved) (map fst examples)
      = Inr (map (\<lambda>im. tf_dense_image_warp ops im (stack_last X_convolved Y_convolved))
               (map fst examples))"
    using assms(5,6) len assms(3) by (rule warp_batch_shared)
  have "read_and_decode ops filename_queue img_dims (m0, m1, m2) size_of_batch dic
        (X_convolved, Y_convolved)
     = Inr ((if grayscale dic then map (tf_rgb_to_grayscale ops) else id)
              (map (\<lambda>im. tf_dense_image_warp ops im (stack_last X_convolved Y_convolved))
                 (map fst examples)),
            map (\<lambda>e. fst (snd e)) examples, map (\<lambda>e. snd (snd e)) examples)"
    unfolding read_and_decode_def assms(2) using assms(1) by (simp add: Let_def w)
  moreover have "reshape4 (tile (concat (concat (stack_last X_convolved Y_convolved))) size_of_batch)
        size_of_batch (m0, m1, 2)
     = Inr (replicate size_of_batch (stack_last X_convolved Y_convolved))"
    using stack_last_shape [OF assms(5,6)] by (rule reshape4_tile)
  ultimately show ?thesis by blast
qed

theorem elastic_warp_shared_across_batch_witness:
  "warp \<lparr>rand_crop = False, rand_flip_left_right = True, rand_flip_top_bottom = False,
         rand_rotate = False, warp = True, grayscale = False\<rparr>
   \<and> has_shape2 (1, 2) [[1, 2 :: rat]] \<and> has_shape2 (1, 2) [[3, 4 :: rat]]
   \<and> stack_last [[1, 2]] [[3, 4]] = [[[1, 3], [2, 4]]]
   \<and> read_and_decode
        \<lparr>tf_rotate = (\<lambda>im k. im),
         tf_dense_image_warp = (\<lambda>im flow. map (map (map (\<lambda>x. x + hd (hd (hd flow))))) im),
         tf_rgb_to_grayscale = (\<lambda>im. im)\<rparr>
        [(\<lparr>crop_draw = (0, 0, 0), flip_left_right = False, flip_up_down = False, angle_sample = 0\<rparr>,
          [(''image_raw'', BytesList [[CHR 0x0A, CHR 0x14, CHR 0x1E, CHR 0x01, CHR 0x02, CHR 0x03]]),
           (''file_path'', BytesList [''a.png'']), (''target_label'', Int64List [1])]),
         (\<lparr>crop_draw = (0, 0, 0), flip_left_right = True, flip_up_down = False, angle_sample = 0\<rparr>,
          [(''image_raw'', BytesList [[CHR 0x0A, CHR 0x14, CHR 0x1E, CHR 0x01, CHR 0x02, CHR 0x03]]),
           (''file_path'', BytesList [''b.png'']), (''target_label'', Int64List [2])])]
        (1, 2, 3) (1, 2, 3) 2
        \<lparr>rand_crop = False, rand_flip_left_right = True, rand_flip_top_bottom = False,
         rand_rotate = False, warp = True, grayscale = False\<rparr>
        ([[1, 2]], [[3, 4]])
     = Inr ([[[[11, 21, 31], [2, 3, 4]]], [[[2, 3, 4], [11, 21, 31]]]], [1, 2], [''a.png'', ''b.png''])"
proof -
  let ?dic = "\<lparr>rand_crop = False, rand_flip_left_right = True, rand_flip_top_bottom = False,
         rand_rotate = False, warp = True, grayscale = False\<rparr>"
  let ?ops = "\<lparr>tf_rotate = (\<lambda>im k. im),
         tf_dense_image_warp = (\<lambda>im flow. map (map (map (\<lambda>x. x + hd (hd (hd flow))))) im),
         tf_rgb_to_grayscale = (\<lambda>im. im)\<rparr>"
  let ?queue = "[(\<lparr>crop_draw = (0, 0, 0), flip_left_right = False, flip_up_down = False, angle_sample = 0\<rparr>,
          [(''image_raw'', BytesList [[CHR 0x0A, CHR 0x14, CHR 0x1E, CHR 0x01, CHR 0x02, CHR 0x03]]),
           (''file_path'', BytesList [''a.png'']), (''target_label'', Int64List [1])]),
         (\<lparr>crop_draw = (0, 0, 0), flip_left_right = True, flip_up_down = False, angle_sample = 0\<rparr>,
          [(''image_raw'', BytesList [[CHR 0x0A, CHR 0x14, CHR 0x1E, CHR 0x01, CHR 0x02, CHR 0x03]]),
           (''file_path'', BytesList [''b.png'']), (''target_label'', Int64List [2])])]"
  let ?examples = "[([[[10, 20, 30], [1, 2, 3]]], 1, ''a.png''),
                    ([[[1, 2, 3], [10, 20, 30]]], 2, ''b.png'')] :: (image \<times> 32 word \<times> string) list"
  have h1: "warp ?dic" by simp
  have h2: "mapE (example_pipeline ?ops ?dic (1, 2, 3) (1, 2, 3)) ?queue = Inr ?examples"
    by code_simp
  have h3: "list_all (has_shape (1, 2, 3)) (map fst ?examples)"
    by (simp add: has_shape_def)
  have h4: "length ?queue = 2" by simp
  have h5: "has_shape2 (1, 2) [[1, 2 :: rat]]" by (simp add: has_shape2_def)
  have h6: "has_shape2 (1, 2) [[3, 4 :: rat]]" by (simp add: has_shape2_def)
  have s: "stack_last [[1, 2]] [[3, 4]] = [[[1, 3], [2, 4]]]" by (simp add: stack_last_def)
  from elastic_warp_shared_across_batch [where ops = ?ops and dic = ?dic and img_dims = "(1, 2, 3)"
      and ?m0.0 = 1 and ?m1.0 = 2 and ?m2.0 = 3 and filename_queue = ?queue and examples = ?examples
      and size_of_batch = 2 and X_convolved = "[[1, 2]]" and Y_convolved = "[[3, 4]]",
      OF h1 h2 h3 h4 h5 h6]
  have "read_and_decode ?ops ?queue (1, 2, 3) (1, 2, 3) 2 ?dic ([[1, 2]], [[3, 4]])
     = Inr ([[[[11, 21, 31], [2, 3, 4]]], [[[2, 3, 4], [11, 21, 31]]]], [1, 2], [''a.png'', ''b.png''])"
    by (simp add: s)
  with h1 h5 h6 s show ?thesis by blast
qed

lemma pixel_values_images: "pixel_values batch = (\<Union>im\<in>set batch. image_values im)"
  by (auto simp: pixel_values_def flatten4_def image_values_def)

lemma set_crop_or_pad_axis: "set (crop_or_pad_axis z t xs) \<subseteq> insert z (set xs)"
proof -
  have "set (take n (drop k xs)) \<subseteq> set xs" for n k
    by (meson set_take_subset set_drop_subset subset_trans)
  then show ?thesis
    by (auto simp: crop_or_pad_axis_def Let_def)
qed

lemma image_values_resize:
  "image_values (resize_image_with_crop_or_pad im (h, w, c) th tw) \<subseteq> insert 0 (image_values im)"
proof
  fix x
  assume "x \<in> image_values (resize_image_with_crop_or_pad im (h, w, c) th tw)"
  then obtain row px where row: "row \<in> set (crop_or_pad_axis (replicate tw (replicate c 0)) th
        (map (crop_or_pad_axis (replicate c 0) tw) im))"
    and px: "px \<in> set row" and x: "x \<in> set px"
    by (auto simp: image_values_def resize_image_with_crop_or_pad_def)
  from row set_crop_or_pad_axis
  consider "row = replicate tw (replicate c 0)"
    | r where "r \<in> set im" "row = crop_or_pad_axis (replicate c 0) tw r"
    by fastforce
  then show "x \<in> insert 0 (image_values im)"
  proof cases
    case 1
    with px x show ?thesis by auto
  next
    case 2
    with px set_crop_or_pad_axis [of "replicate c 0" tw r]
    have "px = replicate c 0 \<or> px \<in> set r" by auto
    with x 2(1) show ?thesis by (auto simp: image_values_def)
  qed
qed

lemma astype_float32_range: "astype_float32 b \<in> of_nat ` {0 .. 255}"
proof -
  have "unat b < 256" using unsigned_less [of b, where 'a = nat] by simp
  then have "unat b \<in> {0 .. 255}" by simp
  then show ?thesis unfolding astype_float32_def by (rule imageI)
qed

lemma image_values_decode_example:
  assumes "decode_example img_dims ex = Inr (im, l, p)"
  shows "image_values im \<subseteq> of_nat ` {0 .. 255}"
proof -
  from assms obtain raw where "im = map (map (map astype_float32)) raw"
    by (auto simp: decode_example_def bindE_def Let_def split: sum.splits)
  then show ?thesis using astype_float32_range by (auto simp: image_values_def)
qed

lemma example_pipeline_plain:
  assumes "\<not> rand_crop dic" and "\<not> rand_flip_left_right dic" and "\<not> rand_flip_top_bottom dic"
    and "\<not> rand_rotate dic"
  shows "example_pipeline ops dic img_dims model_dims
     = (\<lambda>(d, ex). bindE (decode_example img_dims ex) (\<lambda>(im, l, p).
          Inr (resize_image_with_crop_or_pad im img_dims (fst model_dims) (fst (snd model_dims)),
               l, p)))"
  using assms
  by (intro ext) (simp add: example_pipeline_def augment_example_def Let_def split: prod.splits)

lemma mapE_all:
  assumes "mapE f xs = Inr ys" and "\<And>x y. f x = Inr y \<Longrightarrow> P y"
  shows "\<forall>y\<in>set ys. P y"
  using assms by (induction xs arbitrary: ys) (auto split: sum.splits)

text \<open>
  Claim C4 (amended). With the six toggles off, \<open>read_and_decode\<close> does not normalize:
  each image of the batch is the decoded image, cast to float and centre-cropped or
  zero-padded to the model's height and width, so every pixel value of the batch is an
  integer from 0 to 255. The z-score with the persisted constants is the separate
  function \<open>normalize\<close>, which the pipeline does not call.
\<close>

theorem pipeline_without_augmentation:
  assumes "\<not> rand_crop dic" and "\<not> rand_flip_left_right dic" and "\<not> rand_flip_top_bottom dic"
    and "\<not> rand_rotate dic" and "\<not> warp dic" and "\<not> grayscale dic"
  shows "read_and_decode ops filename_queue img_dims model_dims size_of_batch dic noise
     = bindE (mapE (\<lambda>(d, ex). bindE (decode_example img_dims ex) (\<lambda>(im, l, p).
                 Inr (resize_image_with_crop_or_pad im img_dims
                        (fst model_dims) (fst (snd model_dims)), l, p))) filename_queue)
         (\<lambda>examples. Inr (map fst examples, map (\<lambda>e. fst (snd e)) examples,
                          map (\<lambda>e. snd (snd e)) examples))
   \<and> (\<forall>img t_l f_p.
         read_and_decode ops filename_queue img_dims model_dims size_of_batch dic noise
           = Inr (img, t_l, f_p)
         \<longrightarrow> pixel_values img \<subseteq> of_nat ` {0 .. 255})"
proof -
  let ?one = "\<lambda>(d, ex). bindE (decode_example img_dims ex) (\<lambda>(im, l, p).
                 Inr (resize_image_with_crop_or_pad im img_dims
                        (fst model_dims) (fst (snd model_dims)), l, p))"
  have eq: "read_and_decode ops filename_queue img_dims model_dims size_of_batch dic noise
     = bindE (mapE ?one filename_queue)
         (\<lambda>examples. Inr (map fst examples, map (\<lambda>e. fst (snd e)) examples,
                          map (\<lambda>e. snd (snd e)) examples))"
    unfolding read_and_decode_def example_pipeline_plain [OF assms(1-4)]
    using assms(5,6) by (simp add: Let_def)
  have one: "image_values (fst y) \<subseteq> of_nat ` {0 .. 255}" if "?one x = Inr y" for x y
  proof -
    obtain d ex where x: "x = (d, ex)" by (cases x)
    obtain h w c where dims: "img_dims = (h, w, c)" by (cases img_dims)
    from that x obtain im l p where dec: "decode_example img_dims ex = Inr (im, l, p)"
      and y: "y = (resize_image_with_crop_or_pad im img_dims
                        (fst model_dims) (fst (snd model_dims)), l, p)"
      by (auto simp: bindE_def split: sum.splits)
    have "(0::rat) \<in> of_nat ` {0 .. 255}" by (rule image_eqI [of _ _ 0]) simp_all
    with image_values_decode_example [OF dec] image_values_resize [of im h w c "fst model_dims" "fst (snd model_dims)"]
    show ?thesis unfolding y dims by auto
  qed
  have "pixel_values img \<subseteq> of_nat ` {0 .. 255}"
    if r: "read_and_decode ops filename_queue img_dims model_dims size_of_batch dic noise
           = Inr (img, t_l, f_p)" for img t_l f_p
  proof -
    from r eq obtain examples where m: "mapE ?one filename_queue = Inr examples"
      and img: "img = map fst examples"
      by (auto simp: bindE_def split: sum.splits)
    from mapE_all [OF m, of "\<lambda>y. image_values (fst y) \<subseteq> of_nat ` {0 .. 255}"] one
    have "\<forall>y\<in>set examples. image_values (fst y) \<subseteq> of_nat ` {0 .. 255}" by blast
    then show ?thesis unfolding pixel_values_images img by auto
  qed
  with eq show ?thesis by blast
qed

theorem pipeline_without_augmentation_witness:
  "\<not> rand_crop \<lparr>rand_crop = False, rand_flip_left_right = False, rand_flip_top_bottom = False,
         rand_rotate = False, warp = False, grayscale = False\<rparr>
   \<and> \<not> warp \<lparr>rand_crop = False, rand_flip_left_right = False, rand_flip_top_bottom = False,
         rand_rotate = False, warp = False, grayscale = False\<rparr>
   \<and> \<not> grayscale \<lparr>rand_crop = False, rand_flip_left_right = False, rand_flip_top_bottom = False,
         rand_rotate = False, warp = False, grayscale = False\<rparr>
   \<and> read_and_decode
        \<lparr>tf_rotate = (\<lambda>im k. im), tf_dense_image_warp = (\<lambda>im flow. im),
         tf_rgb_to_grayscale = (\<lambda>im. im)\<rparr>
        [(\<lparr>crop_draw = (5, 7, 0), flip_left_right = True, flip_up_down = True, angle_sample = 90\<rparr>,
          [(''image_raw'', BytesList [[CHR 0x0A, CHR 0x14, CHR 0x1E, CHR 0x01, CHR 0x02, CHR 0x03]]),
           (''file_path'', BytesList [''a.png'']), (''target_label'', Int64List [1])])]
        (1, 2, 3) (2, 3, 3) 1
        \<lparr>rand_crop = False, rand_flip_left_right = False, rand_flip_top_bottom = False,
         rand_rotate = False, warp = False, grayscale = False\<rparr>
        ([[0, 0, 0], [0, 0, 0]], [[0, 0, 0], [0, 0, 0]])
     = Inr ([[[[10, 20, 30], [1, 2, 3], [0, 0, 0]], [[0, 0, 0], [0, 0, 0], [0, 0, 0]]]],
            [1], [''a.png''])
   \<and> pixel_values [[[[10, 20, 30], [1, 2, 3], [0, 0, 0]], [[0, 0, 0], [0, 0, 0], [0, 0, 0]]]]
       \<subseteq> of_nat ` {0 .. 255}"
proof -
  let ?dic = "\<lparr>rand_crop = False, rand_flip_left_right = False, rand_flip_top_bottom = False,
         rand_rotate = False, warp = False, grayscale = False\<rparr>"
  let ?ops = "\<lparr>tf_rotate = (\<lambda>im k. im), tf_dense_image_warp = (\<lambda>im flow. im),
         tf_rgb_to_grayscale = (\<lambda>im. im)\<rparr>"
  let ?queue = "[(\<lparr>crop_draw = (5, 7, 0), flip_left_right = True, flip_up_down = True, angle_sample = 90\<rparr>,
          [(''image_raw'', BytesList [[CHR 0x0A, CHR 0x14, CHR 0x1E, CHR 0x01, CHR 0x02, CHR 0x03]]),
           (''file_path'', BytesList [''a.png'']), (''target_label'', Int64List [1])])]"
  let ?noise = "([[0, 0, 0], [0, 0, 0]], [[0, 0, 0], [0, 0, 0]]) :: rat list list \<times> rat list list"
  have h: "\<not> rand_crop ?dic" "\<not> rand_flip_left_right ?dic" "\<not> rand_flip_top_bottom ?dic"
    "\<not> rand_rotate ?dic" "\<not> warp ?dic" "\<not> grayscale ?dic"
    by simp_all
  have r: "read_and_decode ?ops ?queue (1, 2, 3) (2, 3, 3) 1 ?dic ?noise
     = Inr ([[[[10, 20, 30], [1, 2, 3], [0, 0, 0]], [[0, 0, 0], [0, 0, 0], [0, 0, 0]]]],
            [1], [''a.png''])"
    by code_simp
  from pipeline_without_augmentation [where dic = ?dic and ops = ?ops and filename_queue = ?queue
      and img_dims = "(1, 2, 3)" and model_dims = "(2, 3, 3)" and size_of_batch = 1
      and noise = ?noise, OF h] r
  have "pixel_values [[[[10, 20, 30], [1, 2, 3], [0, 0, 0]], [[0, 0, 0], [0, 0, 0], [0, 0, 0]]]]
       \<subseteq> of_nat ` {0 .. 255}"
    by blast
  with h r show ?thesis by blast
qed

text \<open>
  The claim as stated fails: with the toggles off the batch of one pixel \<open>(10, 20, 30)\<close>
  comes out as it was stored, not z-scored, and its mean is not the persisted mean.
\<close>

theorem pipeline_not_normalized_counterexample:
  "read_and_decode
        \<lparr>tf_rotate = (\<lambda>im k. im), tf_dense_image_warp = (\<lambda>im flow. im),
         tf_rgb_to_grayscale = (\<lambda>im. im)\<rparr>
        [(\<lparr>crop_draw = (0, 0, 0), flip_left_right = False, flip_up_down = False, angle_sample = 0\<rparr>,
          [(''image_raw'', BytesList [[CHR 0x0A, CHR 0x14, CHR 0x1E]]),
           (''file_path'', BytesList [''a.png'']), (''target_label'', Int64List [1])])]
        (1, 1, 3) (1, 1, 3) 1
        \<lparr>rand_crop = False, rand_flip_left_right = False, rand_flip_top_bottom = False,
         rand_rotate = False, warp = False, grayscale = False\<rparr>
        ([[0]], [[0]])
     = Inr ([[[[10, 20, 30]]]], [1], [''a.png''])
   \<and> normalize [[[[10, 20, 30]]]] \<noteq> [[[[10, 20, 30]]]]
   \<and> sum_list (flatten4 [[[[10, 20, 30 :: rat]]]]) / of_nat (length (flatten4 [[[[10, 20, 30 :: rat]]]]))
       \<noteq> GLEASON_MEAN_G"
proof -
  have "read_and_decode
        \<lparr>tf_rotate = (\<lambda>im k. im), tf_dense_image_warp = (\<lambda>im flow. im),
         tf_rgb_to_grayscale = (\<lambda>im. im)\<rparr>
        [(\<lparr>crop_draw = (0, 0, 0), flip_left_right = False, flip_up_down = False, angle_sample = 0\<rparr>,
          [(''image_raw'', BytesList [[CHR 0x0A, CHR 0x14, CHR 0x1E]]),
           (''file_path'', BytesList [''a.png'']), (''target_label'', Int64List [1])])]
        (1, 1, 3) (1, 1, 3) 1
        \<lparr>rand_crop = False, rand_flip_left_right = False, rand_flip_top_bottom = False,
         rand_rotate = False, warp = False, grayscale = False\<rparr>
        ([[0]], [[0]])
     = Inr ([[[[10, 20, 30]]]], [1], [''a.png''])"
    by code_simp
  moreover have "normalize [[[[10, 20, 30]]]] \<noteq> [[[[10, 20, 30]]]]"
    by (simp add: normalize_def GLEASON_MEAN_G_def GLEASON_MEAN_STD_G_def)
  moreover have "sum_list (flatten4 [[[[10, 20, 30 :: rat]]]])
        / of_nat (length (flatten4 [[[[10, 20, 30 :: rat]]]])) \<noteq> GLEASON_MEAN_G"
    by (simp add: flatten4_def GLEASON_MEAN_G_def)
  ultimately show ?thesis by blast
qed

end
